theory Spec2Isabelle
  imports Complex_Main
begin

section \<open>Arrays, buffers and the store\<close>

text \<open>
  The module \<^verbatim>\<open>convolutions.py\<close> wraps a compiled library: each of its three functions
  prepares numpy arrays, hands raw pointers and sizes to a routine of that library, and
  returns an array. An array object is modelled by the address of its data buffer, its
  shape, and whether it is the transposed view of that buffer; the store maps addresses to
  buffers. The transposed view is modelled for two-dimensional arrays, the grids the
  module works on. Doubles are idealised as reals, and the integers handed to the library
  are not truncated to C integers.
\<close>

datatype error = IndexError | ValueError | Exception string

type_synonym addr = nat

type_synonym store = "real list list"

record ndarray =
  base :: addr
  shape :: "nat list"
  transposed :: bool

definition UnsupportedFilter :: error where
  "UnsupportedFilter = Exception ''Even sized 2D filters not yet supported by upConv.''"

definition nth0 :: "real list \<Rightarrow> nat \<Rightarrow> real" where
  "nth0 xs k = (if k < length xs then xs ! k else 0)"

definition buffer :: "store \<Rightarrow> addr \<Rightarrow> real list" where
  "buffer st p = (if p < length st then st ! p else [])"

definition cells :: "nat \<Rightarrow> nat \<Rightarrow> (nat \<times> nat) list" where
  "cells m n = List.product [0..<m] [0..<n]"

text \<open>The elements of an array in C (row-major) order of its indices.\<close>

definition c_order :: "store \<Rightarrow> ndarray \<Rightarrow> real list" where
  "c_order st a =
     (case shape a of
        [m, n] \<Rightarrow>
          if transposed a then map (\<lambda>(i, j). nth0 (buffer st (base a)) (j * m + i)) (cells m n)
          else buffer st (base a)
      | _ \<Rightarrow> buffer st (base a))"

definition alloc :: "store \<Rightarrow> real list \<Rightarrow> addr \<times> store" where
  "alloc st xs = (length st, st @ [xs])"

definition new_array :: "store \<Rightarrow> nat list \<Rightarrow> real list \<Rightarrow> ndarray \<times> store" where
  "new_array st shp xs =
     (\<lparr>base = fst (alloc st xs), shape = shp, transposed = False\<rparr>, snd (alloc st xs))"

text \<open>\<^verbatim>\<open>a.copy()\<close> and \<^verbatim>\<open>np.array(a)\<close>: a new C-ordered buffer with the elements of \<open>a\<close>.\<close>

definition np_copy :: "store \<Rightarrow> ndarray \<Rightarrow> ndarray \<times> store" where
  "np_copy st a = new_array st (shape a) (c_order st a)"

definition np_zeros :: "store \<Rightarrow> nat list \<Rightarrow> ndarray \<times> store" where
  "np_zeros st shp = new_array st shp (replicate (prod_list shp) 0)"

text \<open>\<^verbatim>\<open>np.append(a, 0.0)\<close>: a new one-dimensional array, the flattened \<open>a\<close> and one zero.\<close>

definition np_append0 :: "store \<Rightarrow> ndarray \<Rightarrow> ndarray \<times> store" where
  "np_append0 st a = new_array st [length (c_order st a) + 1] (c_order st a @ [0])"

text \<open>\<^verbatim>\<open>a.T\<close>: a view of the same buffer with the axes reversed.\<close>

definition np_T :: "ndarray \<Rightarrow> ndarray" where
  "np_T a = a\<lparr>shape := rev (shape a), transposed := \<not> transposed a\<rparr>"

text \<open>
  \<^verbatim>\<open>np.reshape(a, (s0, s1))\<close> of a C-contiguous array (every array the module reshapes is
  one it has just allocated): a view of the same buffer. One extent may be \<open>-1\<close> and is
  then inferred; any other mismatch of sizes is a \<^verbatim>\<open>ValueError\<close>.
\<close>

definition np_reshape :: "ndarray \<Rightarrow> int \<times> int \<Rightarrow> error + ndarray" where
  "np_reshape a s =
     (let n = int (prod_list (shape a)); s0 = fst s; s1 = snd s in
      if s0 < -1 \<or> s1 < -1 \<or> (s0 = -1 \<and> s1 = -1) then Inl ValueError
      else if s0 = -1 then
        (if s1 \<noteq> 0 \<and> n mod s1 = 0 then Inr (a\<lparr>shape := [nat (n div s1), nat s1]\<rparr>)
         else Inl ValueError)
      else if s1 = -1 then
        (if s0 \<noteq> 0 \<and> n mod s0 = 0 then Inr (a\<lparr>shape := [nat s0, nat (n div s0)]\<rparr>)
         else Inl ValueError)
      else if s0 * s1 = n then Inr (a\<lparr>shape := [nat s0, nat s1]\<rparr>)
      else Inl ValueError)"

text \<open>\<^verbatim>\<open>len(list(range(lo, hi, st)))\<close>; a zero step is a \<^verbatim>\<open>ValueError\<close>.\<close>

definition range_len :: "int \<Rightarrow> int \<Rightarrow> int \<Rightarrow> error + nat" where
  "range_len lo hi st =
     (if st = 0 then Inl ValueError
      else if 0 < st then Inr (if lo < hi then nat ((hi - lo - 1) div st + 1) else 0)
      else Inr (if hi < lo then nat ((lo - hi - 1) div (- st) + 1) else 0))"

text \<open>Writing a new content into the buffer at an address, as the compiled routine does.\<close>

definition poke :: "store \<Rightarrow> addr \<Rightarrow> real list \<Rightarrow> store" where
  "poke st p xs = (if p < length st then st[p := xs] else st)"

section \<open>The compiled routines\<close>

text \<open>
  The library \<^verbatim>\<open>wrapConv\<close> is not part of the Python source. Its five routines are
  modelled from the specification (sections 3 and 4), as functions from the contents of the
  buffers and the integers of the call to the new content of the result buffer. A routine
  has no way to raise a Python exception and the module ignores what it returns, so the
  model has no error result. Where the C routine would read or write outside a buffer, the
  model reads zero and writes nothing.
\<close>

datatype resolved = Idx nat real | ZeroContribution | SkipOutput

text \<open>
  Modelled from the spec: the BoundaryIndexMapper of section 4.1, absent from the source.
  An index inside the extent is itself; an index outside is resolved by the mode. The
  mirror of \<open>reflect1\<close> and \<open>extend\<close> is the one the spec writes (\<open>-1\<close> to \<open>0\<close>, \<open>-2\<close> to
  \<open>1\<close>, \<open>extent\<close> to \<open>extent - 1\<close>), applied once; \<open>reflect2\<close> is the mirror of period
  \<open>2 * extent\<close> with the edge repeated once.
\<close>

definition map_index :: "string \<Rightarrow> int \<Rightarrow> nat \<Rightarrow> resolved" where
  "map_index mode i extent =
     (let n = int extent; mirror = (if i < 0 then - i - 1 else 2 * n - 1 - i) in
      if 0 \<le> i \<and> i < n then Idx (nat i) 1
      else if mode = ''circular'' then
        (if extent = 0 then ZeroContribution else Idx (nat (((i mod n) + n) mod n)) 1)
      else if mode = ''repeat'' then
        (if extent = 0 then ZeroContribution else Idx (if i < 0 then 0 else extent - 1) 1)
      else if mode = ''reflect1'' then
        (if 0 \<le> mirror \<and> mirror < n then Idx (nat mirror) 1 else ZeroContribution)
      else if mode = ''reflect2'' then
        (if extent = 0 then ZeroContribution
         else let m = i mod (2 * n) in Idx (nat (if m < n then m else 2 * n - 1 - m)) 1)
      else if mode = ''extend'' then
        (if 0 \<le> mirror \<and> mirror < n then Idx (nat mirror) (- 1) else ZeroContribution)
      else if mode = ''dont-compute'' then SkipOutput
      else ZeroContribution)"

datatype target = Cell nat nat real | NoCell | Skip

text \<open>
  Modelled from the spec: the mapper applied to both axes (section 4.1), absent from the
  source: a cell with its sign, no contribution, or the sample skipped.
\<close>

definition map_cell :: "string \<Rightarrow> nat \<Rightarrow> nat \<Rightarrow> int \<Rightarrow> int \<Rightarrow> target" where
  "map_cell mode y_dim x_dim y x =
     (case map_index mode y y_dim of
        SkipOutput \<Rightarrow> Skip
      | ZeroContribution \<Rightarrow> (case map_index mode x x_dim of SkipOutput \<Rightarrow> Skip | _ \<Rightarrow> NoCell)
      | Idx r sr \<Rightarrow>
          (case map_index mode x x_dim of
             SkipOutput \<Rightarrow> Skip
           | ZeroContribution \<Rightarrow> NoCell
           | Idx c sc \<Rightarrow> Cell r c (sr * sc)))"

text \<open>
  Modelled from the spec: the filter neighbourhood of sections 3, 4.2 and 4.3, absent from
  the source. The neighbourhood of the coordinate \<open>(y, x)\<close>: for every filter tap \<open>(fy, fx)\<close>, in
  row-major order, the cell that \<open>(y + fy - originY, x + fx - originX)\<close> resolves to,
  with the position of the tap in the filter buffer. The origin is the floor of half the
  filter's size.
\<close>

definition neighbourhood ::
  "string \<Rightarrow> nat \<Rightarrow> nat \<Rightarrow> nat \<Rightarrow> nat \<Rightarrow> int \<Rightarrow> int \<Rightarrow> (target \<times> nat) list" where
  "neighbourhood mode y_dim x_dim y_fdim x_fdim y x =
     map (\<lambda>(fy, fx).
            (map_cell mode y_dim x_dim (y + int fy - int (y_fdim div 2))
               (x + int fx - int (x_fdim div 2)),
             fy * x_fdim + fx))
       (cells y_fdim x_fdim)"

text \<open>Modelled from the spec: the seven mode tokens of section 6.\<close>

definition known_mode :: "string \<Rightarrow> bool" where
  "known_mode mode =
     (mode \<in> set [''circular'', ''reflect1'', ''reflect2'', ''repeat'', ''zero'', ''extend'',
                  ''dont-compute''])"

text \<open>Modelled from the spec: the WindowIterator, the coordinates \<open>start, start + step, ...\<close> below \<open>stop\<close>.\<close>

definition window_count :: "int \<Rightarrow> int \<Rightarrow> int \<Rightarrow> nat" where
  "window_count start step stop =
     (if 0 < step \<and> start < stop then nat ((stop - start - 1) div step + 1) else 0)"

definition window_at :: "int \<Rightarrow> int \<Rightarrow> nat \<Rightarrow> int" where
  "window_at start step k = start + int k * step"

text \<open>
  Modelled from the spec: one output sample of the correlation (section 4.2), absent from
  the source: the weighted sum of a neighbourhood, or nothing when it is skipped.
\<close>

definition gather :: "real list \<Rightarrow> nat \<Rightarrow> real list \<Rightarrow> (target \<times> nat) list \<Rightarrow> real option" where
  "gather img x_dim filt nb =
     (if Skip \<in> fst ` set nb then None
      else Some (\<Sum>(t, k)\<leftarrow>nb.
                   (case t of Cell r c s \<Rightarrow> s * nth0 img (r * x_dim + c) * nth0 filt k
                    | _ \<Rightarrow> 0)))"

text \<open>
  Modelled from the spec: the generic routine of \<open>corrDn\<close> (section 4.2), absent from the
  source. Every output coordinate of the window, in the order of its rank, receives the sum
  of its neighbourhood (overwriting); a skipped sample and every other cell of the result
  buffer keep their value. An unknown mode computes nothing.
\<close>

definition reduce_with ::
  "string \<Rightarrow> real list \<Rightarrow> nat \<Rightarrow> nat \<Rightarrow> real list \<Rightarrow> nat \<Rightarrow> nat \<Rightarrow>
   int \<Rightarrow> int \<Rightarrow> int \<Rightarrow> int \<Rightarrow> int \<Rightarrow> int \<Rightarrow> real list \<Rightarrow> real list" where
  "reduce_with mode img x_dim y_dim filt x_fdim y_fdim
       x_start x_step x_stop y_start y_step y_stop result =
     (let nx = window_count x_start x_step x_stop;
          ny = window_count y_start y_step y_stop in
      map (\<lambda>k. if k < ny * nx then
                  (case gather img x_dim filt
                          (neighbourhood mode y_dim x_dim y_fdim x_fdim
                             (window_at y_start y_step (k div nx))
                             (window_at x_start x_step (k mod nx))) of
                     None \<Rightarrow> result ! k
                   | Some v \<Rightarrow> v)
                else result ! k)
        [0..<length result])"

definition internal_reduce ::
  "real list \<Rightarrow> nat \<Rightarrow> nat \<Rightarrow> real list \<Rightarrow> real list \<Rightarrow> nat \<Rightarrow> nat \<Rightarrow>
   int \<Rightarrow> int \<Rightarrow> int \<Rightarrow> int \<Rightarrow> int \<Rightarrow> int \<Rightarrow> real list \<Rightarrow> string \<Rightarrow> real list" where
  "internal_reduce img x_dim y_dim filt temp x_fdim y_fdim
       x_start x_step x_stop y_start y_step y_stop result edges =
     (if known_mode edges then
        reduce_with edges img x_dim y_dim filt x_fdim y_fdim
          x_start x_step x_stop y_start y_step y_stop result
      else result)"

text \<open>Modelled from the spec: the dedicated circular routine of \<open>corrDn\<close>, absent from the source.\<close>

definition internal_wrap_reduce ::
  "real list \<Rightarrow> nat \<Rightarrow> nat \<Rightarrow> real list \<Rightarrow> nat \<Rightarrow> nat \<Rightarrow>
   int \<Rightarrow> int \<Rightarrow> int \<Rightarrow> int \<Rightarrow> int \<Rightarrow> int \<Rightarrow> real list \<Rightarrow> real list" where
  "internal_wrap_reduce img x_dim y_dim filt x_fdim y_fdim
       x_start x_step x_stop y_start y_step y_stop result =
     reduce_with ''circular'' img x_dim y_dim filt x_fdim y_fdim
       x_start x_step x_stop y_start y_step y_stop result"

text \<open>
  Modelled from the spec: the additive write of section 4.3 into one cell of the result
  buffer; a position outside the buffer is not written.
\<close>

definition add_at :: "real list \<Rightarrow> nat \<Rightarrow> real \<Rightarrow> real list" where
  "add_at res p v = (if p < length res then res[p := res ! p + v] else res)"

text \<open>
  Modelled from the spec: one input sample of the upsampling (section 4.3), absent from the
  source: its value times each tap is added to the cell the tap
  resolves to, at the position \<open>lay r c\<close> of the result buffer; nothing is added when the
  sample is skipped.
\<close>

definition scatter ::
  "(nat \<Rightarrow> nat \<Rightarrow> nat) \<Rightarrow> real list \<Rightarrow> real \<Rightarrow> (target \<times> nat) list \<Rightarrow> real list \<Rightarrow> real list" where
  "scatter lay filt v nb res =
     (if Skip \<in> fst ` set nb then res
      else fold (\<lambda>(t, k) acc.
                   (case t of Cell r c s \<Rightarrow> add_at acc (lay r c) (s * v * nth0 filt k)
                    | _ \<Rightarrow> acc))
             nb res)"

text \<open>
  Modelled from the spec: the generic routine of \<open>upConv\<close> (section 4.3), absent from the
  source. The call does not pass the extents of the image: the input coordinates are those
  of the window (section 3), \<open>window_count\<close> per axis, read in row-major order. The input
  sample \<open>(iy, ix)\<close> is scattered around the output coordinate
  \<open>(y_step * iy, x_step * ix)\<close>, resolved against the extents of the result.
\<close>

definition expand_with ::
  "string \<Rightarrow> (nat \<Rightarrow> nat \<Rightarrow> nat) \<Rightarrow> real list \<Rightarrow> real list \<Rightarrow> nat \<Rightarrow> nat \<Rightarrow>
   int \<Rightarrow> int \<Rightarrow> int \<Rightarrow> int \<Rightarrow> int \<Rightarrow> int \<Rightarrow> real list \<Rightarrow> nat \<Rightarrow> nat \<Rightarrow> real list" where
  "expand_with mode lay img filt x_fdim y_fdim
       x_start x_step x_stop y_start y_step y_stop result x_dim y_dim =
     (let nx = window_count x_start x_step x_stop;
          ny = window_count y_start y_step y_stop in
      fold (\<lambda>(iy, ix) res.
              scatter lay filt (nth0 img (iy * nx + ix))
                (neighbourhood mode y_dim x_dim y_fdim x_fdim
                   (y_step * int iy) (x_step * int ix))
                res)
        (cells ny nx) result)"

definition internal_expand ::
  "real list \<Rightarrow> real list \<Rightarrow> real list \<Rightarrow> nat \<Rightarrow> nat \<Rightarrow>
   int \<Rightarrow> int \<Rightarrow> int \<Rightarrow> int \<Rightarrow> int \<Rightarrow> int \<Rightarrow> real list \<Rightarrow> nat \<Rightarrow> nat \<Rightarrow> string \<Rightarrow> real list" where
  "internal_expand img filt temp x_fdim y_fdim
       x_start x_step x_stop y_start y_step y_stop result x_dim y_dim edges =
     (if known_mode edges then
        expand_with edges (\<lambda>r c. r * x_dim + c) img filt x_fdim y_fdim
          x_start x_step x_stop y_start y_step y_stop result x_dim y_dim
      else result)"

text \<open>
  Modelled from the spec: the dedicated circular routine of \<open>upConv\<close>, absent from the
  source. Its result layout is column-major relative to the generic routine (section 4.3):
  the cell \<open>(r, c)\<close> is at \<open>c * y_dim + r\<close>, and \<open>upConv\<close> transposes afterwards.
\<close>

definition internal_wrap_expand ::
  "real list \<Rightarrow> real list \<Rightarrow> nat \<Rightarrow> nat \<Rightarrow>
   int \<Rightarrow> int \<Rightarrow> int \<Rightarrow> int \<Rightarrow> int \<Rightarrow> int \<Rightarrow> real list \<Rightarrow> nat \<Rightarrow> nat \<Rightarrow> real list" where
  "internal_wrap_expand img filt x_fdim y_fdim
       x_start x_step x_stop y_start y_step y_stop result x_dim y_dim =
     expand_with ''circular'' (\<lambda>r c. c * y_dim + r) img filt x_fdim y_fdim
       x_start x_step x_stop y_start y_step y_stop result x_dim y_dim"

text \<open>
  Modelled from the spec: sample \<open>i\<close> of the table the routine is handed. The routine
  receives the address of the table, not its extent; outside the buffer the model reads
  zero.
\<close>

definition sample :: "real list \<Rightarrow> int \<Rightarrow> real" where
  "sample table i = (if 0 \<le> i \<and> i < int (length table) then table ! nat i else 0)"

text \<open>
  Modelled from the spec: the table lookup of section 4.4, absent from the source. With
  \<open>len\<close> the length the routine is told, the fractional index
  \<open>f = (v - origin) / increment\<close> is extrapolated along the segment of the samples 0 and 1
  when \<open>f < 0\<close>, along the segment of the last two samples when \<open>f > len - 1\<close>, and
  interpolated between its two bracketing samples otherwise.
\<close>

definition lookup :: "real list \<Rightarrow> nat \<Rightarrow> real \<Rightarrow> real \<Rightarrow> real \<Rightarrow> real" where
  "lookup table len origin increment v =
     (let f = (v - origin) / increment; last = int len - 1 in
      if f < 0 then sample table 0 + f * (sample table 1 - sample table 0)
      else if of_int last < f then
        sample table last + (f - of_int last) * (sample table last - sample table (last - 1))
      else
        sample table \<lfloor>f\<rfloor> + (f - of_int \<lfloor>f\<rfloor>) * (sample table (\<lfloor>f\<rfloor> + 1) - sample table \<lfloor>f\<rfloor>))"

text \<open>
  Modelled from the spec: the routine of \<open>pointOp\<close> (section 4.4), absent from the source.
  Each of the first \<open>imsize\<close> cells of the result receives the lookup of the same cell of
  the image, in the table at the address it is handed and of the length \<open>lutsize\<close> it is
  told; the warning about an extrapolation is printed and changes no buffer. The spec calls
  a table of fewer than two samples and a zero increment an error; the routine has no way
  to report one to \<open>pointOp\<close>, and the model has no case of its own for them: the three
  cases of the lookup are applied as they are written (for a zero increment the quotient
  is the one of the reals of HOL, zero).
\<close>

definition internal_pointop ::
  "real list \<Rightarrow> real list \<Rightarrow> nat \<Rightarrow> real list \<Rightarrow> nat \<Rightarrow> real \<Rightarrow> real \<Rightarrow> int \<Rightarrow> real list" where
  "internal_pointop img result imsize lut lutsize origin increment warnings =
     map (\<lambda>k. if k < imsize then lookup lut lutsize origin increment (nth0 img k)
               else result ! k)
       [0..<length result]"

section \<open>The functions of the module\<close>

text \<open>Lines 47 to 51 and 120 to 124: both arrays are copied, a one-dimensional filter becomes a row.\<close>

definition copy_inputs :: "store \<Rightarrow> ndarray \<Rightarrow> ndarray \<Rightarrow> (ndarray \<times> ndarray) \<times> store" where
  "copy_inputs st img filt =
     (let img1 = fst (np_copy st img); st1 = snd (np_copy st img);
          filt1 = fst (np_copy st1 filt); st2 = snd (np_copy st1 filt);
          filt2 = (if length (shape filt1) = 1 then filt1\<lparr>shape := [1, shape filt1 ! 0]\<rparr>
                   else filt1)
      in ((img1, filt2), st2))"

text \<open>\<^verbatim>\<open>np.array(result.copy())\<close>: two copies, the second one is used.\<close>

definition copy_result :: "store \<Rightarrow> ndarray \<Rightarrow> ndarray \<times> store" where
  "copy_result st result = np_copy (snd (np_copy st result)) (fst (np_copy st result))"

definition corrDn_stop :: "ndarray \<Rightarrow> (int \<times> int) option \<Rightarrow> error + int \<times> int" where
  "corrDn_stop img stop =
     (case stop of
        Some s \<Rightarrow> Inr s
      | None \<Rightarrow>
          if length (shape img) < 2 then Inl IndexError
          else Inr (int (shape img ! 0), int (shape img ! 1)))"

definition corrDn_result ::
  "store \<Rightarrow> int \<times> int \<Rightarrow> int \<times> int \<Rightarrow> int \<times> int \<Rightarrow> ndarray option \<Rightarrow>
   (error + ndarray) \<times> store" where
  "corrDn_result st step start stop result =
     (case result of
        Some r \<Rightarrow> (Inr (fst (copy_result st r)), snd (copy_result st r))
      | None \<Rightarrow>
          (case range_len (fst start) (fst stop) (fst step) of
             Inl e \<Rightarrow> (Inl e, st)
           | Inr rxsz \<Rightarrow>
               (case range_len (snd start) (snd stop) (snd step) of
                  Inl e \<Rightarrow> (Inl e, st)
                | Inr rysz \<Rightarrow>
                    (Inr (fst (np_zeros st [rxsz, rysz])), snd (np_zeros st [rxsz, rysz])))))"

text \<open>Lines 63 to 83: the call of the compiled routine, which writes the result buffer.\<close>

definition corrDn_call ::
  "store \<Rightarrow> ndarray \<Rightarrow> ndarray \<Rightarrow> string \<Rightarrow> int \<times> int \<Rightarrow> int \<times> int \<Rightarrow> int \<times> int \<Rightarrow>
   ndarray \<Rightarrow> (error + ndarray) \<times> store" where
  "corrDn_call st img filt edges step start stop result =
     (if edges = ''circular'' then
        (if length (shape img) < 2 \<or> length (shape filt) < 2 then (Inl IndexError, st)
         else
           (Inr result,
            poke st (base result)
              (internal_wrap_reduce (buffer st (base img)) (shape img ! 1) (shape img ! 0)
                 (buffer st (base filt)) (shape filt ! 1) (shape filt ! 0)
                 (snd start) (snd step) (snd stop) (fst start) (fst step) (fst stop)
                 (buffer st (base result)))))
      else
        (if length (shape filt) < 2 then (Inl IndexError, st)
         else
           (let tmp = fst (np_zeros st [shape filt ! 0, shape filt ! 1]);
                st1 = snd (np_zeros st [shape filt ! 0, shape filt ! 1])
            in if length (shape img) < 2 then (Inl IndexError, st1)
               else
                 (Inr result,
                  poke st1 (base result)
                    (internal_reduce (buffer st1 (base img)) (shape img ! 1)
                       (shape img ! 0) (buffer st1 (base filt)) (buffer st1 (base tmp))
                       (shape filt ! 1) (shape filt ! 0)
                       (snd start) (snd step) (snd stop) (fst start) (fst step) (fst stop)
                       (buffer st1 (base result)) edges)))))"

definition corrDn ::
  "store \<Rightarrow> ndarray \<Rightarrow> ndarray \<Rightarrow> string \<Rightarrow> int \<times> int \<Rightarrow> int \<times> int \<Rightarrow>
   (int \<times> int) option \<Rightarrow> ndarray option \<Rightarrow> (error + ndarray) \<times> store" where
  "corrDn st img0 filt0 edges step start stop0 result0 =
     (let ci = copy_inputs st img0 filt0; img = fst (fst ci); filt = snd (fst ci)
      in case corrDn_stop img stop0 of
           Inl e \<Rightarrow> (Inl e, snd ci)
         | Inr stop \<Rightarrow>
             (let cr = corrDn_result (snd ci) step start stop result0
              in case fst cr of
                   Inl e \<Rightarrow> (Inl e, snd cr)
                 | Inr result \<Rightarrow> corrDn_call (snd cr) img filt edges step start stop result))"

text \<open>
  Lines 126 to 135 of \<open>upConv\<close>: the test on the mode is written with \<open>or\<close> between three
  inequalities, as in the source, and the sizes of the filter are read only when it holds
  (\<open>and\<close> evaluates its second operand only then).
\<close>

definition upConv_filter :: "store \<Rightarrow> ndarray \<Rightarrow> string \<Rightarrow> (error + ndarray) \<times> store" where
  "upConv_filter st filt edges =
     (if edges \<noteq> ''reflect1'' \<or> edges \<noteq> ''extend'' \<or> edges \<noteq> ''repeat'' then
        (if length (shape filt) < 2 then (Inl IndexError, st)
         else if shape filt ! 0 mod 2 = 0 \<or> shape filt ! 1 mod 2 = 0 then
           (if shape filt ! 1 = 1 then
              (let filt1 = fst (np_append0 st filt); st1 = snd (np_append0 st filt)
               in (Inr (filt1\<lparr>shape := [shape filt1 ! 0, 1]\<rparr>), st1))
            else if shape filt ! 0 = 1 then
              (let filt1 = fst (np_append0 st filt); st1 = snd (np_append0 st filt)
               in (Inr (filt1\<lparr>shape := [1, shape filt1 ! 0]\<rparr>), st1))
            else (Inl UnsupportedFilter, st))
         else (Inr filt, st))
      else (Inr filt, st))"

text \<open>Lines 137 to 141: the extent of the output.\<close>

definition upConv_stop ::
  "ndarray \<Rightarrow> int \<times> int \<Rightarrow> (int \<times> int) option \<Rightarrow> ndarray option \<Rightarrow> error + int \<times> int" where
  "upConv_stop img step stop result =
     (case stop of
        Some s \<Rightarrow> Inr s
      | None \<Rightarrow>
          (case result of
             None \<Rightarrow>
               if length (shape img) < 2 then Inl IndexError
               else Inr (int (shape img ! 0) * fst step, int (shape img ! 1) * snd step)
           | Some r \<Rightarrow>
               if length (shape r) < 2 then Inl IndexError
               else Inr (int (shape r ! 0), int (shape r ! 1))))"

text \<open>Lines 143 to 146: a supplied result is copied, a missing one is allocated with the extents swapped.\<close>

definition upConv_result ::
  "store \<Rightarrow> int \<times> int \<Rightarrow> ndarray option \<Rightarrow> (error + ndarray) \<times> store" where
  "upConv_result st stop result =
     (case result of
        Some r \<Rightarrow> (Inr (fst (copy_result st r)), snd (copy_result st r))
      | None \<Rightarrow>
          if snd stop < 0 \<or> fst stop < 0 then (Inl ValueError, st)
          else (Inr (fst (np_zeros st [nat (snd stop), nat (fst stop)])),
                snd (np_zeros st [nat (snd stop), nat (fst stop)])))"

text \<open>
  Lines 148 to 168. The routines receive the extents of the result as C integers; the model
  passes the naturals \<open>nat (snd stop)\<close> and \<open>nat (fst stop)\<close>.
\<close>

definition upConv_call ::
  "store \<Rightarrow> ndarray \<Rightarrow> ndarray \<Rightarrow> string \<Rightarrow> int \<times> int \<Rightarrow> int \<times> int \<Rightarrow> int \<times> int \<Rightarrow>
   ndarray \<Rightarrow> (error + ndarray) \<times> store" where
  "upConv_call st img filt edges step start stop result =
     (if length (shape filt) < 2 then (Inl IndexError, st)
      else
        (let temp = fst (np_zeros st [shape filt ! 1, shape filt ! 0]);
             st1 = snd (np_zeros st [shape filt ! 1, shape filt ! 0])
         in if edges = ''circular'' then
              (Inr (np_T result),
               poke st1 (base result)
                 (internal_wrap_expand (buffer st1 (base img)) (buffer st1 (base filt))
                    (shape filt ! 1) (shape filt ! 0)
                    (snd start) (snd step) (snd stop) (fst start) (fst step) (fst stop)
                    (buffer st1 (base result)) (nat (snd stop)) (nat (fst stop))))
            else
              (let st2 = poke st1 (base result)
                           (internal_expand (buffer st1 (base img)) (buffer st1 (base filt))
                              (buffer st1 (base temp)) (shape filt ! 1) (shape filt ! 0)
                              (snd start) (snd step) (snd stop) (fst start) (fst step) (fst stop)
                              (buffer st1 (base result)) (nat (snd stop)) (nat (fst stop)) edges)
               in (np_reshape result stop, st2))))"

definition upConv ::
  "store \<Rightarrow> ndarray \<Rightarrow> ndarray \<Rightarrow> string \<Rightarrow> int \<times> int \<Rightarrow> int \<times> int \<Rightarrow>
   (int \<times> int) option \<Rightarrow> ndarray option \<Rightarrow> (error + ndarray) \<times> store" where
  "upConv st img0 filt0 edges step start stop0 result0 =
     (let ci = copy_inputs st img0 filt0; img = fst (fst ci);
          uf = upConv_filter (snd ci) (snd (fst ci)) edges
      in case fst uf of
           Inl e \<Rightarrow> (Inl e, snd uf)
         | Inr filt \<Rightarrow>
             (case upConv_stop img step stop0 result0 of
                Inl e \<Rightarrow> (Inl e, snd uf)
              | Inr stop \<Rightarrow>
                  (let ur = upConv_result (snd uf) stop result0
                   in case fst ur of
                        Inl e \<Rightarrow> (Inl e, snd ur)
                      | Inr result \<Rightarrow>
                          upConv_call (snd ur) img filt edges step start stop result)))"

text \<open>Lines 183 to 193: \<open>pointOp\<close> passes the arrays of the caller themselves, and \<open>lut.shape[0]\<close> as the length of the table.\<close>

definition pointOp ::
  "store \<Rightarrow> ndarray \<Rightarrow> ndarray \<Rightarrow> real \<Rightarrow> real \<Rightarrow> int \<Rightarrow> (error + ndarray) \<times> store" where
  "pointOp st img lut origin increment warnings =
     (if length (shape img) < 2 then (Inl IndexError, st)
      else
        (let result = fst (np_zeros st [shape img ! 0, shape img ! 1]);
             st1 = snd (np_zeros st [shape img ! 0, shape img ! 1])
         in if length (shape lut) < 1 then (Inl IndexError, st1)
            else
              (let st2 = poke st1 (base result)
                           (internal_pointop (buffer st1 (base img)) (buffer st1 (base result))
                              (shape img ! 0 * shape img ! 1) (buffer st1 (base lut))
                              (shape lut ! 0) origin increment warnings)
               in (Inr (fst (np_copy st2 result)), snd (np_copy st2 result)))))"

text \<open>The inner product of two grids given by their elements in C order.\<close>

definition dot :: "real list \<Rightarrow> real list \<Rightarrow> real" where
  "dot xs ys = (\<Sum>(x, y)\<leftarrow>zip xs ys. x * y)"

text \<open>An array of the caller: its buffer exists and holds as many elements as its shape says.\<close>

definition wf :: "store \<Rightarrow> ndarray \<Rightarrow> bool" where
  "wf st a = (base a < length st \<and> length (buffer st (base a)) = prod_list (shape a))"

text \<open>The first \<open>n\<close> buffers of the store are the same before and after.\<close>

definition frame :: "nat \<Rightarrow> store \<Rightarrow> store \<Rightarrow> bool" where
  "frame n st st' = (n \<le> length st \<and> n \<le> length st' \<and> take n st' = take n st)"

text \<open>
  The weighted sum of a neighbourhood that reads the grid \<open>img\<close>, and the inner product of a
  grid with the content of a result buffer whose cell \<open>(r, c)\<close> is at \<open>lay r c\<close>.
\<close>

definition weight :: "real list \<Rightarrow> nat \<Rightarrow> real list \<Rightarrow> (target \<times> nat) list \<Rightarrow> real" where
  "weight img x_dim filt nb =
     (\<Sum>(t, k)\<leftarrow>nb. (case t of Cell r c s \<Rightarrow> s * nth0 img (r * x_dim + c) * nth0 filt k | _ \<Rightarrow> 0))"

definition pairing :: "(nat \<Rightarrow> nat \<Rightarrow> nat) \<Rightarrow> real list \<Rightarrow> nat \<Rightarrow> nat \<Rightarrow> real list \<Rightarrow> real" where
  "pairing lay img h w res = (\<Sum>(r, c)\<leftarrow>cells h w. nth0 img (r * w + c) * nth0 res (lay r c))"

text \<open>A neighbourhood without a skipped tap, all of whose cells lie in the \<open>h \<times> w\<close> grid.\<close>

definition in_grid :: "nat \<Rightarrow> nat \<Rightarrow> (target \<times> nat) list \<Rightarrow> bool" where
  "in_grid h w nb =
     (Skip \<notin> fst ` set nb \<and> (\<forall>(t, k) \<in> set nb. \<forall>r c s. t = Cell r c s \<longrightarrow> r < h \<and> c < w))"

text \<open>The modes that resolve every tap to a cell or to no contribution.\<close>

definition adjoint_mode :: "string \<Rightarrow> bool" where
  "adjoint_mode edges =
     (edges \<in> set [''circular'', ''reflect1'', ''reflect2'', ''repeat'', ''zero'', ''extend''])"

section \<open>Allocation and the store\<close>

lemma frame_refl: "n \<le> length st \<Longrightarrow> frame n st st"
  by (simp add: frame_def)

lemma frame_trans: "frame n st st1 \<Longrightarrow> frame n st1 st2 \<Longrightarrow> frame n st st2"
  by (simp add: frame_def)

lemma frame_append: "n \<le> length st \<Longrightarrow> frame n st (st @ ys)"
  by (simp add: frame_def)

lemma frame_poke: "n \<le> length st \<Longrightarrow> n \<le> p \<Longrightarrow> frame n st (poke st p xs)"
  by (simp add: frame_def poke_def)

lemma frame_length: "frame n st st' \<Longrightarrow> n \<le> length st'"
  by (simp add: frame_def)

lemma frame_buffer: "frame n st st' \<Longrightarrow> p < n \<Longrightarrow> buffer st' p = buffer st p"
proof -
  assume f: "frame n st st'" and p: "p < n"
  then have "take n st' ! p = take n st ! p" by (simp add: frame_def)
  then show ?thesis using f p by (simp add: frame_def buffer_def)
qed

lemma fst_new_array [simp]:
  "fst (new_array st shp xs) = \<lparr>base = length st, shape = shp, transposed = False\<rparr>"
  by (simp add: new_array_def alloc_def)

lemma snd_new_array [simp]: "snd (new_array st shp xs) = st @ [xs]"
  by (simp add: new_array_def alloc_def)

lemma fst_np_zeros [simp]:
  "fst (np_zeros st shp) = \<lparr>base = length st, shape = shp, transposed = False\<rparr>"
  by (simp add: np_zeros_def)

lemma snd_np_zeros [simp]: "snd (np_zeros st shp) = st @ [replicate (prod_list shp) 0]"
  by (simp add: np_zeros_def)

lemma fst_np_append0 [simp]:
  "fst (np_append0 st a) =
     \<lparr>base = length st, shape = [length (c_order st a) + 1], transposed = False\<rparr>"
  by (simp add: np_append0_def)

lemma snd_np_append0 [simp]: "snd (np_append0 st a) = st @ [c_order st a @ [0]]"
  by (simp add: np_append0_def)

lemma c_order_plain: "\<not> transposed a \<Longrightarrow> c_order st a = buffer st (base a)"
  by (simp add: c_order_def split: list.splits)

lemma buffer_append_old [simp]: "p < length st \<Longrightarrow> buffer (st @ ys) p = buffer st p"
  by (simp add: buffer_def nth_append)

lemma buffer_append_new [simp]: "buffer (st @ [xs]) (length st) = xs"
  by (simp add: buffer_def)

lemma c_order_append_old [simp]: "base a < length st \<Longrightarrow> c_order (st @ ys) a = c_order st a"
  by (simp add: c_order_def split: list.splits)

lemma length_poke [simp]: "length (poke st p xs) = length st"
  by (simp add: poke_def)

lemma buffer_poke:
  "buffer (poke st p xs) q = (if q = p \<and> p < length st then xs else buffer st q)"
  by (auto simp: poke_def buffer_def)

lemma wf_length_c_order: "wf st a \<Longrightarrow> length (c_order st a) = prod_list (shape a)"
  by (auto simp: wf_def c_order_def cells_def split: list.splits)

lemma copy_inputs_eq:
  "copy_inputs st img filt =
     ((\<lparr>base = length st, shape = shape img, transposed = False\<rparr>,
       \<lparr>base = Suc (length st),
        shape = (if length (shape filt) = 1 then [1, shape filt ! 0] else shape filt),
        transposed = False\<rparr>),
      st @ [c_order st img, c_order (st @ [c_order st img]) filt])"
  by (simp add: copy_inputs_def Let_def np_copy_def)

lemma copy_result_eq:
  "copy_result st r =
     (\<lparr>base = Suc (length st), shape = shape r, transposed = False\<rparr>,
      st @ [c_order st r, c_order st r])"
  by (simp add: copy_result_def np_copy_def c_order_plain prod_eq_iff)

lemmas eval_defs = upConv_def corrDn_def pointOp_def copy_inputs_def copy_result_def np_copy_def
  np_zeros_def np_append0_def new_array_def alloc_def c_order_def buffer_def upConv_filter_def
  upConv_stop_def upConv_result_def upConv_call_def corrDn_stop_def corrDn_result_def
  corrDn_call_def range_len_def np_reshape_def np_T_def poke_def Let_def UnsupportedFilter_def

lemmas kernel_defs = internal_expand_def internal_wrap_expand_def internal_reduce_def
  internal_wrap_reduce_def expand_with_def reduce_with_def known_mode_def window_count_def
  window_at_def cells_def neighbourhood_def map_cell_def map_index_def scatter_def gather_def
  add_at_def nth0_def internal_pointop_def lookup_def sample_def

subsection \<open>What a call leaves in the store\<close>

lemma corrDn_result_frame:
  assumes "n \<le> length st"
  shows "frame n st (snd (corrDn_result st step start stop result))"
    and "fst (corrDn_result st step start stop result) = Inr r \<Longrightarrow>
           length st \<le> base r \<and> base r < length (snd (corrDn_result st step start stop result))"
  using assms
  by (auto simp: corrDn_result_def copy_result_eq np_zeros_def frame_append frame_refl
           split: option.splits sum.splits)

lemma corrDn_call_frame:
  assumes "n \<le> length st" "n \<le> base result"
  shows "frame n st (snd (corrDn_call st img filt edges step start stop result))"
  using assms
  by (auto simp: corrDn_call_def Let_def np_zeros_def frame_refl frame_append
           intro!: frame_poke frame_trans[OF frame_append frame_poke] split: if_splits)


lemma corrDn_call_result:
  "fst (corrDn_call st img filt edges step start stop result) = Inr r \<Longrightarrow> r = result"
  by (auto simp: corrDn_call_def Let_def split: if_splits)

lemma corrDn_frame:
  "frame (length st) st (snd (corrDn st img filt edges step start stop result))"
  "fst (corrDn st img filt edges step start stop result) = Inr r \<Longrightarrow> length st \<le> base r"
proof -
  let ?ci = "copy_inputs st img filt"
  have f2: "frame (length st) st (snd ?ci)"
    by (simp add: copy_inputs_eq frame_append)
  have l2: "length st \<le> length (snd ?ci)"
    by (simp add: copy_inputs_eq)
  show "frame (length st) st (snd (corrDn st img filt edges step start stop result))"
  proof (cases "corrDn_stop (fst (fst ?ci)) stop")
    case (Inl e)
    then show ?thesis using f2 by (simp add: corrDn_def Let_def)
  next
    case (Inr s)
    let ?cr = "corrDn_result (snd ?ci) step start s result"
    have f3: "frame (length st) st (snd ?cr)"
      using frame_trans[OF f2 corrDn_result_frame(1)[OF l2]] .
    show ?thesis
    proof (cases "fst ?cr")
      case (Inl e)
      then show ?thesis using Inr f3
        by (simp add: corrDn_def Let_def)
    next
      case res: (Inr res)
      have b: "length st \<le> base res" and l3: "length st \<le> length (snd ?cr)"
        using corrDn_result_frame(2)[OF l2 res] l2 f3 by (auto simp: frame_def)
      have "frame (length st) st (snd (corrDn_call (snd ?cr) (fst (fst ?ci)) (snd (fst ?ci)) edges step start s res))"
        using frame_trans[OF f3 corrDn_call_frame[OF l3 b]] .
      then show ?thesis using Inr res
        by (simp add: corrDn_def Let_def)
    qed
  qed
  show "fst (corrDn st img filt edges step start stop result) = Inr r \<Longrightarrow> length st \<le> base r"
  proof (cases "corrDn_stop (fst (fst ?ci)) stop")
    case (Inl e)
    assume "fst (corrDn st img filt edges step start stop result) = Inr r"
    then show ?thesis using Inl by (simp add: corrDn_def Let_def)
  next
    case (Inr s)
    assume a: "fst (corrDn st img filt edges step start stop result) = Inr r"
    let ?cr = "corrDn_result (snd ?ci) step start s result"
    show ?thesis
    proof (cases "fst ?cr")
      case (Inl e)
      then show ?thesis using Inr a
        by (simp add: corrDn_def Let_def)
    next
      case res: (Inr res)
      have b: "length st \<le> base res"
        using corrDn_result_frame(2)[OF l2 res] l2 by auto
      have "r = res"
        using a Inr res corrDn_call_result[of "(snd ?cr)" _ _ _ _ _ _ res r]
        by (simp add: corrDn_def Let_def)
      then show ?thesis using b by simp
    qed
  qed
qed

lemma upConv_filter_frame:
  assumes "n \<le> length st"
  shows "frame n st (snd (upConv_filter st f edges))"
  using assms by (simp add: upConv_filter_def Let_def frame_refl frame_append)

lemma upConv_result_frame:
  assumes "n \<le> length st"
  shows "frame n st (snd (upConv_result st stop result))"
    and "fst (upConv_result st stop result) = Inr r \<Longrightarrow> length st \<le> base r"
  using assms
  by (auto simp: upConv_result_def copy_result_eq frame_append frame_refl
           split: option.splits if_splits)

lemma upConv_call_frame:
  assumes "n \<le> length st" "n \<le> base result"
  shows "frame n st (snd (upConv_call st img filt edges step start stop result))"
  using assms
  by (auto simp: upConv_call_def Let_def frame_refl
           intro!: frame_trans[OF frame_append frame_poke])

lemma upConv_call_result:
  "fst (upConv_call st img filt edges step start stop result) = Inr r \<Longrightarrow> base r = base result"
  by (auto simp: upConv_call_def Let_def np_T_def np_reshape_def split: if_splits)

lemma upConv_frame:
  "frame (length st) st (snd (upConv st img filt edges step start stop result))"
  "fst (upConv st img filt edges step start stop result) = Inr r \<Longrightarrow> length st \<le> base r"
proof -
  let ?ci = "copy_inputs st img filt"
  let ?uf = "upConv_filter (snd ?ci) (snd (fst ?ci)) edges"
  have f2: "frame (length st) st (snd ?ci)"
    by (simp add: copy_inputs_eq frame_append)
  have f3: "frame (length st) st (snd ?uf)"
    using frame_trans[OF f2 upConv_filter_frame[OF frame_length[OF f2]]] .
  note l3 = frame_length[OF f3]
  have both: "frame (length st) st (snd (upConv st img filt edges step start stop result)) \<and>
    (fst (upConv st img filt edges step start stop result) = Inr r \<longrightarrow> length st \<le> base r)"
  proof (cases "fst ?uf")
    case (Inl e)
    then show ?thesis using f3 by (simp add: upConv_def Let_def)
  next
    case f: (Inr f)
    show ?thesis
    proof (cases "upConv_stop (fst (fst ?ci)) step stop result")
      case (Inl e)
      then show ?thesis using f f3 by (simp add: upConv_def Let_def)
    next
      case s: (Inr s)
      let ?ur = "upConv_result (snd ?uf) s result"
      have f4: "frame (length st) st (snd ?ur)"
        using frame_trans[OF f3 upConv_result_frame(1)[OF l3]] .
      show ?thesis
      proof (cases "fst ?ur")
        case (Inl e)
        then show ?thesis using f s f4 by (simp add: upConv_def Let_def)
      next
        case res: (Inr res)
        have b: "length st \<le> base res"
          using upConv_result_frame(2)[OF le_refl res] l3 by simp
        let ?uc = "upConv_call (snd ?ur) (fst (fst ?ci)) f edges step start s res"
        have "frame (length st) st (snd ?uc)"
          using frame_trans[OF f4 upConv_call_frame[OF frame_length[OF f4] b]] .
        moreover have "fst ?uc = Inr r \<Longrightarrow> length st \<le> base r"
          using upConv_call_result[of "snd ?ur" _ f edges step start s res r] b by simp
        ultimately show ?thesis using f s res by (simp add: upConv_def Let_def)
      qed
    qed
  qed
  show "frame (length st) st (snd (upConv st img filt edges step start stop result))"
    using both by simp
  show "fst (upConv st img filt edges step start stop result) = Inr r \<Longrightarrow> length st \<le> base r"
    using both by simp
qed

subsection \<open>The filter of \<open>upConv\<close>\<close>

lemma upConv_filter_row:
  assumes "shape f = [1, n]" "even n" "\<not> transposed f" "base f < length st" "length (buffer st (base f)) = n"
  shows "upConv_filter st f edges =
           (Inr \<lparr>base = length st, shape = [1, n + 1], transposed = False\<rparr>, st @ [buffer st (base f) @ [0]])"
  using assms by (auto simp: upConv_filter_def Let_def c_order_plain)

lemma upConv_filter_col:
  assumes "shape f = [n, 1]" "even n" "\<not> transposed f" "base f < length st" "length (buffer st (base f)) = n"
  shows "upConv_filter st f edges =
           (Inr \<lparr>base = length st, shape = [n + 1, 1], transposed = False\<rparr>, st @ [buffer st (base f) @ [0]])"
  using assms by (auto simp: upConv_filter_def Let_def c_order_plain)

lemma upConv_filter_odd:
  assumes "shape f = [m, n]" "odd m" "odd n"
  shows "upConv_filter st f edges = (Inr f, st)"
  using assms by (auto simp: upConv_filter_def Let_def odd_iff_mod_2_eq_one)

lemma upConv_filter_2D:
  "shape f = [m, n] \<Longrightarrow> m \<noteq> 1 \<Longrightarrow> n \<noteq> 1 \<Longrightarrow> even m \<or> even n \<Longrightarrow>
   upConv_filter st f edges = (Inl UnsupportedFilter, st)"
  by (auto simp: upConv_filter_def)

lemma upConv_filter_dims:
  "fst (upConv_filter st filt edges) = Inr f \<Longrightarrow> 2 \<le> length (shape f)"
  by (auto simp: upConv_filter_def Let_def split: if_splits)

lemma upConv_default_ok:
  assumes f: "fst (upConv_filter (snd (copy_inputs st img filt)) (snd (fst (copy_inputs st img filt))) edges) = Inr f"
    and img: "length (shape img) = 2" and s: "0 \<le> fst step" "0 \<le> snd step"
  shows "\<exists>r. fst (upConv st img filt edges step start None None) = Inr r \<and>
             shape r = [nat (int (shape img ! 0) * fst step), nat (int (shape img ! 1) * snd step)]"
proof -
  have nn: "0 \<le> int (shape img ! 0) * fst step" "0 \<le> int (shape img ! 1) * snd step"
    using s by simp_all
  then have nl: "\<not> int (shape img ! 0) * fst step < 0" "\<not> int (shape img ! 1) * snd step < 0"
    by linarith+
  have d: "\<not> length (shape f) < 2"
    using upConv_filter_dims[OF f] by simp
  show ?thesis
    using f img nn nl d
    by (auto simp: upConv_def Let_def copy_inputs_eq upConv_stop_def upConv_result_def
          upConv_call_def np_reshape_def np_T_def nat_mult_distrib mult.commute)
qed

subsection \<open>Calls that raise nothing\<close>

lemma corrDn_default_ok:
  assumes "length (shape img) = 2" "length (shape filt) = 1 \<or> length (shape filt) = 2"
  shows "fst (corrDn st img filt edges (1, 1) (0, 0) None None) =
           Inr \<lparr>base = length st + 2, shape = shape img, transposed = False\<rparr>"
proof -
  obtain h w where hw: "shape img = [h, w]"
    using assms(1) by (metis (no_types, opaque_lifting) Suc_length_conv length_0_conv numeral_2_eq_2)
  have r: "range_len 0 (int h) 1 = Inr h" "range_len 0 (int w) 1 = Inr w"
    by (auto simp: range_len_def)
  show ?thesis using assms(2) hw r
    by (auto simp: corrDn_def Let_def copy_inputs_eq corrDn_stop_def corrDn_result_def corrDn_call_def)
qed

lemma upConv_filter_line_ok:
  assumes "shape f = [m, 1] \<or> shape f = [1, m]"
  shows "\<exists>f'. fst (upConv_filter st f edges) = Inr f'"
  using assms by (auto simp: upConv_filter_def Let_def)

lemma pointOp_ok:
  assumes "length (shape img) = 2" "1 \<le> length (shape lut)"
  shows "fst (pointOp st img lut origin increment warnings) =
           Inr \<lparr>base = length st + 1, shape = shape img, transposed = False\<rparr>"
proof -
  obtain h w where hw: "shape img = [h, w]"
    using assms(1) by (metis (no_types, opaque_lifting) Suc_length_conv length_0_conv numeral_2_eq_2)
  show ?thesis using assms(2) hw
    by (auto simp: pointOp_def Let_def np_copy_def)
qed


section \<open>Correlation and its transpose\<close>

lemma cells_Suc: "cells (Suc h) w = cells h w @ map (Pair h) [0..<w]"
  by (simp add: cells_def product_concat_map)

lemma set_cells [simp]: "set (cells h w) = {0..<h} \<times> {0..<w}"
  by (auto simp: cells_def)

lemma distinct_cells [simp]: "distinct (cells h w)"
  by (simp add: cells_def distinct_product)

lemma length_cells [simp]: "length (cells h w) = h * w"
  by (simp add: cells_def)

lemma upt_cells: "[0..<h * w] = map (\<lambda>(j, i). j * w + i) (cells h w)"
proof (induction h)
  case 0
  then show ?case by (simp add: cells_def)
next
  case (Suc h)
  have a: "Suc h * w = h * w + w" by simp
  have b: "[0..<h * w + w] = [0..<h * w] @ [h * w..<h * w + w]"
    by (rule upt_add_eq_append) simp
  have c: "[h * w..<h * w + w] = map (\<lambda>i. h * w + i) [0..<w]"
    using map_add_upt[of "h * w" w] by (simp only: add.commute)
  have d: "map (\<lambda>(j, i). j * w + i) (cells (Suc h) w) =
           map (\<lambda>(j, i). j * w + i) (cells h w) @ map (\<lambda>i. h * w + i) [0..<w]"
    by (simp only: cells_Suc map_append map_map comp_def prod.case)
  show ?case
    by (simp only: a b c d Suc.IH)
qed

lemma cell_index_bound: "j < h \<Longrightarrow> i < w \<Longrightarrow> j * w + i < h * (w::nat)"
proof -
  assume a: "j < h" "i < w"
  then have "j * w + i < j * w + w" by simp
  also have "\<dots> = Suc j * w" by simp
  also have "\<dots> \<le> h * w" using a(1) by (intro mult_le_mono1) simp
  finally show ?thesis .
qed

lemma row_major_inj:
  "i < w \<Longrightarrow> i' < w \<Longrightarrow> j * w + i = j' * w + i' \<Longrightarrow> j = j' \<and> i = (i'::nat)"
proof -
  assume a: "i < w" "i' < w" "j * w + i = j' * w + i'"
  then have "(j * w + i) div w = (j' * w + i') div w" "(j * w + i) mod w = (j' * w + i') mod w"
    by simp_all
  then show ?thesis using a(1,2) by simp
qed

lemma list_as_cells:
  assumes "length zs = h * w"
  shows "zs = map (\<lambda>(j, i). nth0 zs (j * w + i)) (cells h w)"
proof -
  have "zs = map (nth zs) [0..<h * w]"
    using map_nth[of zs] assms by simp
  also have "\<dots> = map (\<lambda>(j, i). zs ! (j * w + i)) (cells h w)"
    by (simp add: upt_cells comp_def case_prod_unfold)
  also have "\<dots> = map (\<lambda>(j, i). nth0 zs (j * w + i)) (cells h w)"
    using assms by (auto simp: nth0_def cell_index_bound)
  finally show ?thesis .
qed

lemma dot_map: "dot (map f zs) (map g zs) = (\<Sum>z\<leftarrow>zs. f z * g z)"
  by (simp add: dot_def zip_map_map zip_same_conv_map comp_def)

lemma dot_row_major:
  assumes "length xs = h * w" "length res = h * w"
  shows "dot xs res = pairing (\<lambda>r c. r * w + c) xs h w res"
proof -
  have x: "map (\<lambda>(j, i). nth0 xs (j * w + i)) (cells h w) = xs"
    using list_as_cells[OF assms(1)] by (rule sym)
  have r: "map (\<lambda>(j, i). nth0 res (j * w + i)) (cells h w) = res"
    using list_as_cells[OF assms(2)] by (rule sym)
  have "dot (map (\<lambda>(j, i). nth0 xs (j * w + i)) (cells h w))
            (map (\<lambda>(j, i). nth0 res (j * w + i)) (cells h w)) =
        pairing (\<lambda>r c. r * w + c) xs h w res"
    by (simp add: dot_map pairing_def case_prod_unfold)
  then show ?thesis
    by (simp only: x r)
qed

lemma dot_col_major:
  assumes "length xs = h * w"
  shows "dot xs (map (\<lambda>(i, j). nth0 res (j * h + i)) (cells h w)) =
         pairing (\<lambda>r c. c * h + r) xs h w res"
proof -
  have x: "map (\<lambda>(j, i). nth0 xs (j * w + i)) (cells h w) = xs"
    using list_as_cells[OF assms(1)] by (rule sym)
  have "dot (map (\<lambda>(j, i). nth0 xs (j * w + i)) (cells h w))
            (map (\<lambda>(i, j). nth0 res (j * h + i)) (cells h w)) =
        pairing (\<lambda>r c. c * h + r) xs h w res"
    by (simp add: dot_map pairing_def case_prod_unfold)
  then show ?thesis
    by (simp only: x)
qed

lemma length_add_at [simp]: "length (add_at res p v) = length res"
  by (simp add: add_at_def)

lemma nth0_add_at:
  "p < length res \<Longrightarrow> nth0 (add_at res p v) q = nth0 res q + (if q = p then v else 0)"
  by (simp add: add_at_def nth0_def nth_list_update)

lemma sum_list_delta:
  assumes "distinct zs" "a \<in> set zs"
  shows "(\<Sum>z\<leftarrow>zs. if z = a then k z else (0::real)) = k a"
proof -
  have "(\<Sum>z\<leftarrow>zs. if z = a then k z else 0) = (\<Sum>z\<in>set zs. if z = a then k z else 0)"
    using assms(1) by (rule sum_list_distinct_conv_sum_set)
  also have "\<dots> = k a"
    using assms(2) by (simp add: sum.delta)
  finally show ?thesis .
qed

lemma pairing_add_at:
  assumes inj: "\<And>r c r' c'. r < h \<Longrightarrow> c < w \<Longrightarrow> r' < h \<Longrightarrow> c' < w \<Longrightarrow>
                 lay r c = lay r' c' \<Longrightarrow> r = r' \<and> c = c'"
    and rc: "r < h" "c < w" and len: "lay r c < length res"
  shows "pairing lay X h w (add_at res (lay r c) v) =
         pairing lay X h w res + nth0 X (r * w + c) * v"
proof -
  have "pairing lay X h w (add_at res (lay r c) v) =
        (\<Sum>z\<leftarrow>cells h w. nth0 X (fst z * w + snd z) * nth0 res (lay (fst z) (snd z)) +
                          (if z = (r, c) then nth0 X (fst z * w + snd z) * v else 0))"
    unfolding pairing_def
  proof (rule arg_cong[where f = sum_list], rule map_cong[OF refl])
    fix z assume "z \<in> set (cells h w)"
    then have z: "fst z < h" "snd z < w" by auto
    have "lay (fst z) (snd z) = lay r c \<longleftrightarrow> z = (r, c)"
      using inj[OF z rc] by (cases z) auto
    then show "(case z of (r', c') \<Rightarrow> nth0 X (r' * w + c') * nth0 (add_at res (lay r c) v) (lay r' c')) =
               nth0 X (fst z * w + snd z) * nth0 res (lay (fst z) (snd z)) +
               (if z = (r, c) then nth0 X (fst z * w + snd z) * v else 0)"
      by (simp add: case_prod_unfold nth0_add_at[OF len] distrib_left)
  qed
  also have "\<dots> = (\<Sum>z\<leftarrow>cells h w. nth0 X (fst z * w + snd z) * nth0 res (lay (fst z) (snd z))) +
                   (\<Sum>z\<leftarrow>cells h w. if z = (r, c) then nth0 X (fst z * w + snd z) * v else 0)"
    by (simp only: sum_list_addf)
  also have "(\<Sum>z\<leftarrow>cells h w. if z = (r, c) then nth0 X (fst z * w + snd z) * v else 0) =
             nth0 X (r * w + c) * v"
    using sum_list_delta[of "cells h w" "(r, c)" "\<lambda>z. nth0 X (fst z * w + snd z) * v"] rc
    by simp
  finally show ?thesis
    by (simp add: pairing_def case_prod_unfold)
qed

lemma in_grid_Cons:
  "in_grid h w ((t, k) # nb) \<longleftrightarrow>
     t \<noteq> Skip \<and> (\<forall>r c s. t = Cell r c s \<longrightarrow> r < h \<and> c < w) \<and> in_grid h w nb"
  by (auto simp: in_grid_def)

lemma weight_Nil [simp]: "weight X w F [] = 0"
  by (simp add: weight_def)

lemma weight_Cons:
  "weight X w F ((t, k) # nb) =
     (case t of Cell r c s \<Rightarrow> s * nth0 X (r * w + c) * nth0 F k | _ \<Rightarrow> 0) + weight X w F nb"
  by (simp add: weight_def)

lemma fold_scatter_pairing:
  assumes inj: "\<And>r c r' c'. r < h \<Longrightarrow> c < w \<Longrightarrow> r' < h \<Longrightarrow> c' < w \<Longrightarrow>
                 lay r c = lay r' c' \<Longrightarrow> r = r' \<and> c = c'"
    and bound: "\<And>r c. r < h \<Longrightarrow> c < w \<Longrightarrow> lay r c < n"
  shows "in_grid h w nb \<Longrightarrow> length res = n \<Longrightarrow>
         pairing lay X h w
           (fold (\<lambda>(t, k) acc. (case t of Cell r c s \<Rightarrow> add_at acc (lay r c) (s * v * nth0 F k)
                                 | _ \<Rightarrow> acc)) nb res) =
         pairing lay X h w res + v * weight X w F nb"
proof (induction nb arbitrary: res)
  case Nil
  then show ?case by simp
next
  case (Cons a nb)
  obtain t k where a: "a = (t, k)" by (cases a)
  from Cons.prems(1) have g: "in_grid h w nb" and t: "t \<noteq> Skip"
    and tc: "\<And>r c s. t = Cell r c s \<Longrightarrow> r < h \<and> c < w"
    by (auto simp: a in_grid_Cons)
  show ?case
  proof (cases t)
    case (Cell r c s)
    have rc: "r < h" "c < w" using tc[OF Cell] by auto
    have len: "lay r c < length res" using bound[OF rc] Cons.prems(2) by simp
    have "pairing lay X h w (add_at res (lay r c) (s * v * nth0 F k)) =
          pairing lay X h w res + nth0 X (r * w + c) * (s * v * nth0 F k)"
      by (rule pairing_add_at[where lay = lay and h = h and w = w, OF inj rc len])
    then show ?thesis
      using Cons.IH[OF g, of "add_at res (lay r c) (s * v * nth0 F k)"] Cons.prems(2)
      by (simp add: a Cell weight_Cons algebra_simps)
  next
    case NoCell
    then show ?thesis
      using Cons.IH[OF g Cons.prems(2)] by (simp add: a weight_Cons)
  next
    case Skip
    then show ?thesis using t by simp
  qed
qed

lemma length_fold_scatter [simp]:
  "length (fold (\<lambda>(t, k) acc. (case t of Cell r c s \<Rightarrow> add_at acc (lay r c) (f s k)
                                 | _ \<Rightarrow> acc)) nb res) = length res"
  by (induction nb arbitrary: res) (auto split: target.splits)

lemma length_scatter [simp]: "length (scatter lay F v nb res) = length res"
  by (simp add: scatter_def)

lemma scatter_pairing:
  assumes inj: "\<And>r c r' c'. r < h \<Longrightarrow> c < w \<Longrightarrow> r' < h \<Longrightarrow> c' < w \<Longrightarrow>
                 lay r c = lay r' c' \<Longrightarrow> r = r' \<and> c = c'"
    and bound: "\<And>r c. r < h \<Longrightarrow> c < w \<Longrightarrow> lay r c < n"
    and g: "in_grid h w nb" and len: "length res = n"
  shows "pairing lay X h w (scatter lay F v nb res) = pairing lay X h w res + v * weight X w F nb"
proof -
  have "Skip \<notin> fst ` set nb" using g by (simp add: in_grid_def)
  then have s: "scatter lay F v nb res =
      fold (\<lambda>(t, k) acc. (case t of Cell r c s \<Rightarrow> add_at acc (lay r c) (s * v * nth0 F k)
                                 | _ \<Rightarrow> acc)) nb res"
    unfolding scatter_def by (rule if_not_P)
  show ?thesis
    unfolding s
    by (rule fold_scatter_pairing[where lay = lay and h = h and w = w and n = n, OF inj bound g len])
qed

lemma fold_scatter_all:
  assumes inj: "\<And>r c r' c'. r < h \<Longrightarrow> c < w \<Longrightarrow> r' < h \<Longrightarrow> c' < w \<Longrightarrow>
                 lay r c = lay r' c' \<Longrightarrow> r = r' \<and> c = c'"
    and bound: "\<And>r c. r < h \<Longrightarrow> c < w \<Longrightarrow> lay r c < n"
    and g: "\<And>z. in_grid h w (nb z)"
  shows "length res = n \<Longrightarrow>
         pairing lay X h w (fold (\<lambda>z acc. scatter lay F (val z) (nb z) acc) zs res) =
         pairing lay X h w res + (\<Sum>z\<leftarrow>zs. val z * weight X w F (nb z))"
proof (induction zs arbitrary: res)
  case Nil
  then show ?case by simp
next
  case (Cons z zs)
  have "pairing lay X h w (scatter lay F (val z) (nb z) res) =
        pairing lay X h w res + val z * weight X w F (nb z)"
    by (rule scatter_pairing[where lay = lay and h = h and w = w and n = n, OF inj bound g Cons.prems])
  then show ?case
    using Cons.IH[of "scatter lay F (val z) (nb z) res"] Cons.prems
    by simp
qed

lemma map_index_range: "map_index mode i n = Idx k s \<Longrightarrow> k < n"
  unfolding map_index_def Let_def
  by (auto split: if_splits simp: nat_less_iff) 

lemma map_index_no_skip: "mode \<noteq> ''dont-compute'' \<Longrightarrow> map_index mode i n \<noteq> SkipOutput"
  unfolding map_index_def Let_def by (simp split: if_splits)

lemma map_cell_no_skip: "mode \<noteq> ''dont-compute'' \<Longrightarrow> map_cell mode h w y x \<noteq> Skip"
  using map_index_no_skip[of mode y h] map_index_no_skip[of mode x w]
  by (auto simp: map_cell_def split: resolved.splits)

lemma map_cell_range: "map_cell mode h w y x = Cell r c s \<Longrightarrow> r < h \<and> c < w"
  using map_index_range[of mode y h] map_index_range[of mode x w]
  by (auto simp: map_cell_def split: resolved.splits)

lemma neighbourhood_in_grid:
  "mode \<noteq> ''dont-compute'' \<Longrightarrow> in_grid h w (neighbourhood mode h w yf xf y x)"
  using map_cell_no_skip[of mode h w] map_cell_no_skip[THEN not_sym, of mode h w]
    map_cell_range[of mode h w]
  by (auto simp: in_grid_def neighbourhood_def)

lemma gather_weight: "in_grid h w nb \<Longrightarrow> gather X xd F nb = Some (weight X xd F nb)"
  by (simp add: gather_def weight_def in_grid_def)

lemma window_count_default [simp]: "window_count 0 1 (int n) = n"
  by (simp add: window_count_def)

lemma window_at_default [simp]: "window_at 0 1 k = int k"
  by (simp add: window_at_def)

lemma nth0_replicate [simp]: "nth0 (replicate n 0) k = 0"
  by (simp add: nth0_def)

lemma pairing_zeros [simp]: "pairing lay X h w (replicate n 0) = 0"
  by (simp add: pairing_def case_prod_unfold)

lemma reduce_with_default:
  assumes "mode \<noteq> ''dont-compute''"
  shows "reduce_with mode X w h F xf yf 0 1 (int w) 0 1 (int h) (replicate (h * w) 0) =
         map (\<lambda>(j, i). weight X w F (neighbourhood mode h w yf xf (int j) (int i))) (cells h w)"
proof -
  have "reduce_with mode X w h F xf yf 0 1 (int w) 0 1 (int h) (replicate (h * w) 0) =
        map (\<lambda>k. weight X w F (neighbourhood mode h w yf xf (int (k div w)) (int (k mod w))))
          [0..<h * w]"
    unfolding reduce_with_def Let_def
    by (rule map_cong) (simp_all add: gather_weight[OF neighbourhood_in_grid[OF assms]])
  also have "\<dots> = map (\<lambda>(j, i). weight X w F (neighbourhood mode h w yf xf (int j) (int i)))
                     (cells h w)"
    unfolding upt_cells map_map
  proof (rule map_cong[OF refl])
    fix z assume "z \<in> set (cells h w)"
    then have "snd z < w" by auto
    then show "((\<lambda>k. weight X w F (neighbourhood mode h w yf xf (int (k div w)) (int (k mod w)))) \<circ>
                (\<lambda>(j, i). j * w + i)) z =
               (case z of (j, i) \<Rightarrow> weight X w F (neighbourhood mode h w yf xf (int j) (int i)))"
      by (simp add: case_prod_unfold)
  qed
  finally show ?thesis .
qed

lemma expand_with_default:
  assumes mode: "mode \<noteq> ''dont-compute''"
    and inj: "\<And>r c r' c'. r < h \<Longrightarrow> c < w \<Longrightarrow> r' < h \<Longrightarrow> c' < w \<Longrightarrow>
                 lay r c = lay r' c' \<Longrightarrow> r = r' \<and> c = c'"
    and bound: "\<And>r c. r < h \<Longrightarrow> c < w \<Longrightarrow> lay r c < h * w"
  shows "pairing lay X h w
           (expand_with mode lay Y F xf yf 0 1 (int w) 0 1 (int h) (replicate (h * w) 0) w h) =
         (\<Sum>(j, i)\<leftarrow>cells h w. nth0 Y (j * w + i) *
              weight X w F (neighbourhood mode h w yf xf (int j) (int i)))"
proof -
  have e: "expand_with mode lay Y F xf yf 0 1 (int w) 0 1 (int h) (replicate (h * w) 0) w h =
        fold (\<lambda>z acc. scatter lay F (nth0 Y (fst z * w + snd z))
                 (neighbourhood mode h w yf xf (int (fst z)) (int (snd z))) acc)
          (cells h w) (replicate (h * w) 0)"
    unfolding expand_with_def Let_def
    by (simp add: case_prod_unfold)
  have "pairing lay X h w
          (fold (\<lambda>z acc. scatter lay F (nth0 Y (fst z * w + snd z))
                   (neighbourhood mode h w yf xf (int (fst z)) (int (snd z))) acc)
             (cells h w) (replicate (h * w) 0)) =
        pairing lay X h w (replicate (h * w) 0) +
        (\<Sum>z\<leftarrow>cells h w. nth0 Y (fst z * w + snd z) *
             weight X w F (neighbourhood mode h w yf xf (int (fst z)) (int (snd z))))"
    by (rule fold_scatter_all[where lay = lay and h = h and w = w and n = "h * w"
          and nb = "\<lambda>z. neighbourhood mode h w yf xf (int (fst z)) (int (snd z))"
          and val = "\<lambda>z. nth0 Y (fst z * w + snd z)", OF inj bound neighbourhood_in_grid[OF mode]])
       simp_all
  then show ?thesis
    unfolding e by (simp add: case_prod_unfold)
qed

lemma weight_append: "weight X w F (nb1 @ nb2) = weight X w F nb1 + weight X w F nb2"
  by (simp add: weight_def)

lemma weight_cong_filter:
  assumes "\<And>t k. (t, k) \<in> set nb \<Longrightarrow> nth0 F' k = nth0 F k"
  shows "weight X w F' nb = weight X w F nb"
  unfolding weight_def
  by (rule arg_cong[where f = sum_list], rule map_cong[OF refl])
     (auto simp: assms split: target.splits)

lemma neighbourhood_tap_bound:
  "(t, k) \<in> set (neighbourhood mode h w yf xf y x) \<Longrightarrow> k < yf * xf"
  by (auto simp: neighbourhood_def cell_index_bound)

lemma nth0_append_zero: "k < length F \<Longrightarrow> nth0 (F @ [0]) k = nth0 F k"
  by (simp add: nth0_def nth_append)

lemma nth0_append_zero_last: "nth0 (F @ [0]) (length F) = 0"
  by (simp add: nth0_def)

lemma cells_row: "cells (Suc 0) n = map (Pair 0) [0..<n]"
  by (simp add: cells_def)

lemma neighbourhood_row_Suc:
  assumes "even n"
  shows "neighbourhood mode h w (Suc 0) (Suc n) y x =
         neighbourhood mode h w (Suc 0) n y x @
           [(map_cell mode h w y (x + int n - int (n div 2)), n)]"
proof -
  have "Suc n div 2 = n div 2" using assms by simp
  then show ?thesis
    by (simp add: neighbourhood_def cells_row comp_def)
qed

lemma neighbourhood_col_Suc:
  assumes "even n"
  shows "neighbourhood mode h w (Suc n) (Suc 0) y x =
         neighbourhood mode h w n (Suc 0) y x @
           [(map_cell mode h w (y + int n - int (n div 2)) x, n)]"
proof -
  have "Suc n div 2 = n div 2" using assms by simp
  then show ?thesis
    by (simp add: neighbourhood_def cells_Suc)
qed

lemma weight_padded_row:
  assumes "even n" "length F = n"
  shows "weight X w (F @ [0]) (neighbourhood mode h w (Suc 0) (Suc n) y x) =
         weight X w F (neighbourhood mode h w (Suc 0) n y x)"
proof -
  have "weight X w (F @ [0]) (neighbourhood mode h w (Suc 0) n y x) =
        weight X w F (neighbourhood mode h w (Suc 0) n y x)"
    by (rule weight_cong_filter)
       (use neighbourhood_tap_bound[of _ _ mode h w "Suc 0" n y x] assms(2) in \<open>auto simp: nth0_append_zero\<close>)
  then show ?thesis
    using nth0_append_zero_last[of F] assms(2)
    by (simp add: neighbourhood_row_Suc[OF assms(1)] weight_append weight_Cons split: target.splits)
qed

lemma weight_padded_col:
  assumes "even n" "length F = n"
  shows "weight X w (F @ [0]) (neighbourhood mode h w (Suc n) (Suc 0) y x) =
         weight X w F (neighbourhood mode h w n (Suc 0) y x)"
proof -
  have "weight X w (F @ [0]) (neighbourhood mode h w n (Suc 0) y x) =
        weight X w F (neighbourhood mode h w n (Suc 0) y x)"
    by (rule weight_cong_filter)
       (use neighbourhood_tap_bound[of _ _ mode h w n "Suc 0" y x] assms(2) in \<open>auto simp: nth0_append_zero\<close>)
  then show ?thesis
    using nth0_append_zero_last[of F] assms(2)
    by (simp add: neighbourhood_col_Suc[OF assms(1)] weight_append weight_Cons split: target.splits)
qed

lemma adjoint_kernels:
  assumes mode: "mode \<noteq> ''dont-compute''"
    and X: "length X = h * w" and Y: "length Y = h * w"
    and inj: "\<And>r c r' c'. r < h \<Longrightarrow> c < w \<Longrightarrow> r' < h \<Longrightarrow> c' < w \<Longrightarrow>
                 lay r c = lay r' c' \<Longrightarrow> r = r' \<and> c = c'"
    and bound: "\<And>r c. r < h \<Longrightarrow> c < w \<Longrightarrow> lay r c < h * w"
    and wt: "\<And>y x. weight X w F' (neighbourhood mode h w yf' xf' y x) =
                     weight X w F (neighbourhood mode h w yf xf y x)"
  shows "dot (reduce_with mode X w h F xf yf 0 1 (int w) 0 1 (int h) (replicate (h * w) 0)) Y =
         pairing lay X h w
           (expand_with mode lay Y F' xf' yf' 0 1 (int w) 0 1 (int h) (replicate (h * w) 0) w h)"
proof -
  have y: "map (\<lambda>(j, i). nth0 Y (j * w + i)) (cells h w) = Y"
    using list_as_cells[OF Y] by (rule sym)
  have "dot (map (\<lambda>(j, i). weight X w F (neighbourhood mode h w yf xf (int j) (int i))) (cells h w))
            (map (\<lambda>(j, i). nth0 Y (j * w + i)) (cells h w)) =
        (\<Sum>(j, i)\<leftarrow>cells h w. nth0 Y (j * w + i) *
              weight X w F (neighbourhood mode h w yf xf (int j) (int i)))"
    by (simp add: dot_map case_prod_unfold mult.commute)
  then have "dot (reduce_with mode X w h F xf yf 0 1 (int w) 0 1 (int h) (replicate (h * w) 0)) Y =
        (\<Sum>(j, i)\<leftarrow>cells h w. nth0 Y (j * w + i) *
              weight X w F (neighbourhood mode h w yf xf (int j) (int i)))"
    unfolding reduce_with_default[OF mode] y .
  also have "\<dots> = (\<Sum>(j, i)\<leftarrow>cells h w. nth0 Y (j * w + i) *
              weight X w F' (neighbourhood mode h w yf' xf' (int j) (int i)))"
    by (simp only: wt)
  also have "\<dots> = pairing lay X h w
           (expand_with mode lay Y F' xf' yf' 0 1 (int w) 0 1 (int h) (replicate (h * w) 0) w h)"
    by (rule expand_with_default[where lay = lay, OF mode inj bound, symmetric])
  finally show ?thesis .
qed

lemma buffer_append_at:
  "buffer (st @ ys) (length st + k) = (if k < length ys then ys ! k else [])"
  by (simp add: buffer_def nth_append)

lemma buffer_append_at0:
  "buffer (st @ ys) (length st) = (if 0 < length ys then ys ! 0 else [])"
  using buffer_append_at[of st ys 0] by simp

lemma buffer_append_Suc:
  "buffer (st @ ys) (Suc (length st)) = (if 1 < length ys then ys ! 1 else [])"
  using buffer_append_at[of st ys 1] by simp

lemma copied_filter_shape:
  assumes "shape filt = [fh, fw] \<or> (fh = 1 \<and> shape filt = [fw])"
  shows "shape (snd (fst (copy_inputs st img filt))) = [fh, fw]"
  using assms by (auto simp: copy_inputs_eq)

lemma corrDn_default_buffer:
  assumes x: "shape x = [h, w]" and f: "shape filt = [fh, fw] \<or> (fh = 1 \<and> shape filt = [fw])"
    and bf: "base filt < length st"
  shows "buffer (snd (corrDn st x filt edges (1, 1) (0, 0) None None)) (length st + 2) =
           (if edges = ''circular'' then
              internal_wrap_reduce (c_order st x) w h (c_order st filt) fw fh
                0 1 (int w) 0 1 (int h) (replicate (h * w) 0)
            else
              internal_reduce (c_order st x) w h (c_order st filt) (replicate (fh * fw) 0) fw fh
                0 1 (int w) 0 1 (int h) (replicate (h * w) 0) edges)"
proof -
  have r: "range_len 0 (int h) 1 = Inr h" "range_len 0 (int w) 1 = Inr w"
    by (auto simp: range_len_def)
  have s: "shape (snd (fst (copy_inputs st x filt))) = [fh, fw]"
    by (rule copied_filter_shape[OF f])
  have c: "copy_inputs st x filt =
     ((\<lparr>base = length st, shape = [h, w], transposed = False\<rparr>,
       \<lparr>base = Suc (length st), shape = [fh, fw], transposed = False\<rparr>),
      st @ [c_order st x, c_order st filt])"
    using s x bf by (simp add: copy_inputs_eq)
  show ?thesis
    by (simp add: corrDn_def Let_def c corrDn_stop_def corrDn_result_def r corrDn_call_def
          buffer_poke buffer_append_at buffer_append_at0 buffer_append_Suc)
       (simp add: buffer_def nth_append)
qed

lemma upConv_default_buffer:
  assumes y: "shape y = [h, w]"
    and uf: "upConv_filter (snd (copy_inputs st y filt)) (snd (fst (copy_inputs st y filt))) edges =
               (Inr f', st3)"
    and f': "shape f' = [fh', fw']" "base f' < length st3"
    and l: "length st < length st3"
  shows "fst (upConv st y filt edges (1, 1) (0, 0) None None) =
           Inr \<lparr>base = length st3, shape = [h, w], transposed = (edges = ''circular'')\<rparr>"
    and "buffer (snd (upConv st y filt edges (1, 1) (0, 0) None None)) (length st3) =
           (if edges = ''circular'' then
              internal_wrap_expand (buffer st3 (length st)) (buffer st3 (base f')) fw' fh'
                0 1 (int w) 0 1 (int h) (replicate (h * w) 0) w h
            else
              internal_expand (buffer st3 (length st)) (buffer st3 (base f'))
                (replicate (fw' * fh') 0) fw' fh'
                0 1 (int w) 0 1 (int h) (replicate (h * w) 0) w h edges)"
proof -
  have i: "fst (fst (copy_inputs st y filt)) = \<lparr>base = length st, shape = [h, w], transposed = False\<rparr>"
    using y by (simp add: copy_inputs_eq)
  have b: "buffer (st3 @ [replicate (w * h) 0, replicate (fw' * fh') 0]) (length st) = buffer st3 (length st)"
    "buffer (st3 @ [replicate (w * h) 0, replicate (fw' * fh') 0]) (base f') = buffer st3 (base f')"
    using l f'(2) by simp_all
  show "fst (upConv st y filt edges (1, 1) (0, 0) None None) =
           Inr \<lparr>base = length st3, shape = [h, w], transposed = (edges = ''circular'')\<rparr>"
    by (simp add: upConv_def Let_def uf i upConv_stop_def upConv_result_def upConv_call_def f'
          np_T_def np_reshape_def mult.commute)
  show "buffer (snd (upConv st y filt edges (1, 1) (0, 0) None None)) (length st3) =
           (if edges = ''circular'' then
              internal_wrap_expand (buffer st3 (length st)) (buffer st3 (base f')) fw' fh'
                0 1 (int w) 0 1 (int h) (replicate (h * w) 0) w h
            else
              internal_expand (buffer st3 (length st)) (buffer st3 (base f'))
                (replicate (fw' * fh') 0) fw' fh'
                0 1 (int w) 0 1 (int h) (replicate (h * w) 0) w h edges)"
    using b
    by (simp add: upConv_def Let_def uf i upConv_stop_def upConv_result_def upConv_call_def f'
          buffer_poke buffer_append_at buffer_append_at0 buffer_append_Suc mult.commute)
qed

lemma length_expand_with [simp]:
  "length (expand_with mode lay Y F xf yf xs xst xsp ys yst ysp res xd yd) = length res"
proof -
  have "\<And>zs f. length (fold (\<lambda>z acc. scatter lay F (fst (f z)) (snd (f z)) acc) zs res) = length res"
    subgoal for zs f by (induction zs arbitrary: res) simp_all
    done
  from this[of "\<lambda>z. (nth0 Y (fst z * window_count xs xst xsp + snd z),
                      neighbourhood mode yd xd yf xf (yst * int (fst z)) (xst * int (snd z)))"]
  show ?thesis
    by (simp add: expand_with_def Let_def case_prod_unfold)
qed

lemma adjoint_mode_known: "adjoint_mode edges \<Longrightarrow> known_mode edges \<and> edges \<noteq> ''dont-compute''"
  by (auto simp: adjoint_mode_def known_mode_def)

lemma col_major_inj:
  "r < h \<Longrightarrow> r' < h \<Longrightarrow> c * h + r = c' * h + r' \<Longrightarrow> r = r' \<and> c = (c'::nat)"
  using row_major_inj[of r h r' c c'] by simp

lemma col_major_bound: "r < h \<Longrightarrow> c < w \<Longrightarrow> c * h + r < h * (w::nat)"
  using cell_index_bound[of c w r h] by (simp add: mult.commute)

lemma upConv_side:
  assumes y: "shape y = [h, w]" and m: "adjoint_mode edges"
    and uf: "upConv_filter (snd (copy_inputs st y filt)) (snd (fst (copy_inputs st y filt))) edges =
               (Inr f', st3)"
    and f': "shape f' = [fh', fw']" "base f' < length st3"
    and l: "length st < length st3"
    and X: "length X = h * w"
  shows "\<exists>r2. fst (upConv st y filt edges (1, 1) (0, 0) None None) = Inr r2 \<and> shape r2 = [h, w] \<and>
           dot X (c_order (snd (upConv st y filt edges (1, 1) (0, 0) None None)) r2) =
           pairing (if edges = ''circular'' then (\<lambda>r c. c * h + r) else (\<lambda>r c. r * w + c)) X h w
             (expand_with edges
                (if edges = ''circular'' then (\<lambda>r c. c * h + r) else (\<lambda>r c. r * w + c))
                (buffer st3 (length st)) (buffer st3 (base f')) fw' fh'
                0 1 (int w) 0 1 (int h) (replicate (h * w) 0) w h)"
proof (cases "edges = ''circular''")
  case True
  let ?r = "\<lparr>base = length st3, shape = [h, w], transposed = True\<rparr>"
  let ?st = "snd (upConv st y filt edges (1, 1) (0, 0) None None)"
  have r: "fst (upConv st y filt edges (1, 1) (0, 0) None None) = Inr ?r"
    using upConv_default_buffer(1)[OF y uf f' l] True by simp
  have b: "buffer ?st (length st3) =
           expand_with ''circular'' (\<lambda>r c. c * h + r) (buffer st3 (length st)) (buffer st3 (base f'))
             fw' fh' 0 1 (int w) 0 1 (int h) (replicate (h * w) 0) w h"
    using upConv_default_buffer(2)[OF y uf f' l] True by (simp add: internal_wrap_expand_def)
  have "c_order ?st ?r = map (\<lambda>(i, j). nth0 (buffer ?st (length st3)) (j * h + i)) (cells h w)"
    by (simp add: c_order_def)
  then have "dot X (c_order ?st ?r) = pairing (\<lambda>r c. c * h + r) X h w (buffer ?st (length st3))"
    using dot_col_major[OF X] by simp
  then show ?thesis using r b True by simp
next
  case False
  let ?r = "\<lparr>base = length st3, shape = [h, w], transposed = False\<rparr>"
  let ?st = "snd (upConv st y filt edges (1, 1) (0, 0) None None)"
  have r: "fst (upConv st y filt edges (1, 1) (0, 0) None None) = Inr ?r"
    using upConv_default_buffer(1)[OF y uf f' l] False by simp
  have b: "buffer ?st (length st3) =
           expand_with edges (\<lambda>r c. r * w + c) (buffer st3 (length st)) (buffer st3 (base f'))
             fw' fh' 0 1 (int w) 0 1 (int h) (replicate (h * w) 0) w h"
    using upConv_default_buffer(2)[OF y uf f' l] False adjoint_mode_known[OF m]
    by (simp add: internal_expand_def)
  have "c_order ?st ?r = buffer ?st (length st3)"
    by (simp add: c_order_plain)
  moreover have "length (buffer ?st (length st3)) = h * w"
    unfolding b by simp
  ultimately have "dot X (c_order ?st ?r) = pairing (\<lambda>r c. r * w + c) X h w (buffer ?st (length st3))"
    using dot_row_major[OF X] by simp
  then show ?thesis using r b False by simp
qed

lemma kernels_agree:
  assumes m: "adjoint_mode edges"
    and X: "length X = h * w" and Y: "length Y = h * w"
    and wt: "\<And>y x. weight X w F' (neighbourhood edges h w fh' fw' y x) =
                     weight X w F (neighbourhood edges h w fh fw y x)"
  shows "dot (reduce_with edges X w h F fw fh 0 1 (int w) 0 1 (int h) (replicate (h * w) 0)) Y =
         pairing (if edges = ''circular'' then (\<lambda>r c. c * h + r) else (\<lambda>r c. r * w + c)) X h w
           (expand_with edges
              (if edges = ''circular'' then (\<lambda>r c. c * h + r) else (\<lambda>r c. r * w + c))
              Y F' fw' fh' 0 1 (int w) 0 1 (int h) (replicate (h * w) 0) w h)"
proof (cases "edges = ''circular''")
  case True
  have "dot (reduce_with edges X w h F fw fh 0 1 (int w) 0 1 (int h) (replicate (h * w) 0)) Y =
        pairing (\<lambda>r c. c * h + r) X h w
          (expand_with edges (\<lambda>r c. c * h + r) Y F' fw' fh' 0 1 (int w) 0 1 (int h)
             (replicate (h * w) 0) w h)"
    using adjoint_mode_known[OF m] X Y wt
    by (intro adjoint_kernels[where lay = "\<lambda>r c. c * h + r"])
       (auto dest: col_major_inj intro: col_major_bound)
  then show ?thesis using True by simp
next
  case False
  have "dot (reduce_with edges X w h F fw fh 0 1 (int w) 0 1 (int h) (replicate (h * w) 0)) Y =
        pairing (\<lambda>r c. r * w + c) X h w
          (expand_with edges (\<lambda>r c. r * w + c) Y F' fw' fh' 0 1 (int w) 0 1 (int h)
             (replicate (h * w) 0) w h)"
    using adjoint_mode_known[OF m] X Y wt
    by (intro adjoint_kernels[where lay = "\<lambda>r c. r * w + c"])
       (auto dest: row_major_inj intro: cell_index_bound)
  then show ?thesis using False by simp
qed

section \<open>Even-sized filters in \<open>upConv\<close>\<close>

text \<open>
  Claim C2. Every call of \<open>upConv\<close> with an even-sized two-dimensional filter (neither a
  row nor a column, one extent even) raises the exception for unsupported filters, whatever
  the other arguments are. An even-sized one-dimensional filter (a row \<open>1 \<times> n\<close>, a flat
  array of length \<open>n\<close>, or a column \<open>n \<times> 1\<close>, with \<open>n\<close> even) is padded with one
  trailing zero, to \<open>1 \<times> (n + 1)\<close> or \<open>(n + 1) \<times> 1\<close>, and the call on a
  two-dimensional image with the default output extent returns a grid.
\<close>

theorem upConv_even_filter:
  "(shape filt2 = [m, k] \<and> m \<noteq> 1 \<and> k \<noteq> 1 \<and> (even m \<or> even k) \<longrightarrow>
      fst (upConv st img filt2 edges step start stop result) = Inl UnsupportedFilter) \<and>
   (wf st filt \<and> even n \<and> (shape filt = [1, n] \<or> shape filt = [n] \<or> shape filt = [n, 1]) \<longrightarrow>
      (\<exists>f. fst (upConv_filter (snd (copy_inputs st img filt))
                  (snd (fst (copy_inputs st img filt))) edges) = Inr f \<and>
            shape f = (if shape filt = [n, 1] then [n + 1, 1] else [1, n + 1]) \<and>
            c_order (snd (upConv_filter (snd (copy_inputs st img filt))
                       (snd (fst (copy_inputs st img filt))) edges)) f = c_order st filt @ [0]) \<and>
      (length (shape img) = 2 \<and> 0 \<le> fst step \<and> 0 \<le> snd step \<longrightarrow>
         (\<exists>r. fst (upConv st img filt edges step start None None) = Inr r)))"
proof (intro conjI impI)
  assume "shape filt2 = [m, k] \<and> m \<noteq> 1 \<and> k \<noteq> 1 \<and> (even m \<or> even k)"
  then show "fst (upConv st img filt2 edges step start stop result) = Inl UnsupportedFilter"
    by (simp add: upConv_def Let_def copy_inputs_eq upConv_filter_2D)
next
  assume a: "wf st filt \<and> even n \<and> (shape filt = [1, n] \<or> shape filt = [n] \<or> shape filt = [n, 1])"
  let ?ci = "copy_inputs st img filt"
  let ?uf = "upConv_filter (snd ?ci) (snd (fst ?ci)) edges"
  from a have b: "base filt < length st" and len: "length (c_order st filt) = n"
    using wf_length_c_order[of st filt] by (auto simp: wf_def)
  have buf: "buffer (snd ?ci) (Suc (length st)) = c_order st filt"
    using b by (simp add: copy_inputs_eq buffer_def nth_append)
  have pad: "\<exists>f. fst ?uf = Inr f \<and>
            shape f = (if shape filt = [n, 1] then [n + 1, 1] else [1, n + 1]) \<and>
            c_order (snd ?uf) f = c_order st filt @ [0]"
  proof (cases "shape filt = [n, 1]")
    case True
    have "?uf = (Inr \<lparr>base = length (snd ?ci), shape = [n + 1, 1], transposed = False\<rparr>,
                 snd ?ci @ [buffer (snd ?ci) (base (snd (fst ?ci))) @ [0]])"
      by (rule upConv_filter_col) (use True a buf len in \<open>simp_all add: copy_inputs_eq\<close>)
    then show ?thesis using True buf
      by (simp add: c_order_plain) (simp add: copy_inputs_eq)
  next
    case False
    have "?uf = (Inr \<lparr>base = length (snd ?ci), shape = [1, n + 1], transposed = False\<rparr>,
                 snd ?ci @ [buffer (snd ?ci) (base (snd (fst ?ci))) @ [0]])"
      by (rule upConv_filter_row) (use False a buf len in \<open>auto simp add: copy_inputs_eq\<close>)
    then show ?thesis using False buf
      by (simp add: c_order_plain) (simp add: copy_inputs_eq)
  qed
  then show "\<exists>f. fst ?uf = Inr f \<and>
            shape f = (if shape filt = [n, 1] then [n + 1, 1] else [1, n + 1]) \<and>
            c_order (snd ?uf) f = c_order st filt @ [0]" .
  assume "length (shape img) = 2 \<and> 0 \<le> fst step \<and> 0 \<le> snd step"
  then show "\<exists>r. fst (upConv st img filt edges step start None None) = Inr r"
    using pad upConv_default_ok[of st img filt edges _ step start] by blast
qed

theorem upConv_even_filter_witness:
  "fst (upConv [[1, 2, 3, 4], [1, 2], [1, 2, 3, 4]] \<lparr>base = 0, shape = [1, 4], transposed = False\<rparr>
          \<lparr>base = 2, shape = [2, 2], transposed = False\<rparr> ''zero'' (1, 1) (0, 0) None None) =
     Inl UnsupportedFilter \<and>
   (\<exists>r. fst (upConv [[1, 2, 3, 4], [1, 2], [1, 2, 3, 4]]
               \<lparr>base = 0, shape = [1, 4], transposed = False\<rparr>
               \<lparr>base = 1, shape = [1, 2], transposed = False\<rparr> ''zero'' (1, 1) (0, 0) None None) = Inr r)"
  using upConv_even_filter [where ?filt2.0 = "\<lparr>base = 2, shape = [2, 2], transposed = False\<rparr>"
      and m = 2 and k = 2 and st = "[[1, 2, 3, 4], [1, 2], [1, 2, 3, 4]]"
      and img = "\<lparr>base = 0, shape = [1, 4], transposed = False\<rparr>"
      and filt = "\<lparr>base = 1, shape = [1, 2], transposed = False\<rparr>" and n = 2
      and edges = "''zero''" and step = "(1, 1)" and start = "(0, 0)" and stop = None and result = None]
  by (simp add: wf_def buffer_def)

text \<open>
  Claim C3. The padding is said to be skipped for the modes \<open>reflect1\<close>, \<open>extend\<close> and
  \<open>repeat\<close>. The test of line 126 joins three inequalities with \<open>or\<close> and holds for
  every mode. In the call below the store holds the image at address 0 and the even row
  filter \<open>[1, 2]\<close> at address 1; the call puts their copies at 2 and 3, and under each of
  the three modes \<open>np.append\<close> allocates the padded filter \<open>[1, 2, 0]\<close> at address 4,
  which is the filter the routine receives.
\<close>

theorem upConv_pads_under_exempted_modes:
  "snd (upConv [[1, 2, 3, 4], [1, 2]] \<lparr>base = 0, shape = [1, 4], transposed = False\<rparr>
          \<lparr>base = 1, shape = [1, 2], transposed = False\<rparr> ''reflect1'' (1, 1) (0, 0)
          None None) ! 4 = [1, 2, 0] \<and>
   snd (upConv [[1, 2, 3, 4], [1, 2]] \<lparr>base = 0, shape = [1, 4], transposed = False\<rparr>
          \<lparr>base = 1, shape = [1, 2], transposed = False\<rparr> ''extend'' (1, 1) (0, 0)
          None None) ! 4 = [1, 2, 0] \<and>
   snd (upConv [[1, 2, 3, 4], [1, 2]] \<lparr>base = 0, shape = [1, 4], transposed = False\<rparr>
          \<lparr>base = 1, shape = [1, 2], transposed = False\<rparr> ''repeat'' (1, 1) (0, 0)
          None None) ! 4 = [1, 2, 0]"
  by (simp add: eval_defs)

section \<open>The result buffer\<close>

text \<open>
  Claim C4. The result is said to be added into the buffer the caller supplies. Line 146
  copies that buffer first: for the \<open>1 \<times> 1\<close> image \<open>[1]\<close>, the filter \<open>[1]\<close> and the
  supplied buffer \<open>[5]\<close> at address 2, the sum \<open>6\<close> is in a new buffer at address 6 and
  the buffer of the caller still holds \<open>5\<close>.
\<close>

theorem upConv_accumulates_into_copy:
  "upConv [[1], [1], [5]] \<lparr>base = 0, shape = [1, 1], transposed = False\<rparr>
       \<lparr>base = 1, shape = [1, 1], transposed = False\<rparr> ''zero'' (1, 1) (0, 0) None
       (Some \<lparr>base = 2, shape = [1, 1], transposed = False\<rparr>) =
     (Inr \<lparr>base = 6, shape = [1, 1], transposed = False\<rparr>,
      [[1], [1], [5], [1], [1], [5], [6], [0]])"
  by (simp add: eval_defs kernel_defs upt_rec)

text \<open>
  Claim C8. The returned grid is said to have the shape \<open>(stop[0], stop[1])\<close> in every
  mode. With a supplied \<open>2 \<times> 3\<close> buffer and no \<open>stop\<close>, the output extent is
  \<open>(2, 3)\<close>; the circular path returns the transpose of the copied buffer, of shape
  \<open>(3, 2)\<close>, where the other path reshapes to \<open>(2, 3)\<close>.
\<close>

theorem upConv_circular_buffer_shape:
  "upConv_stop \<lparr>base = 0, shape = [1, 1], transposed = False\<rparr> (1, 1) None
       (Some \<lparr>base = 2, shape = [2, 3], transposed = False\<rparr>) = Inr (2, 3) \<and>
   fst (upConv [[1], [1], [0, 0, 0, 0, 0, 0]] \<lparr>base = 0, shape = [1, 1], transposed = False\<rparr>
          \<lparr>base = 1, shape = [1, 1], transposed = False\<rparr> ''circular'' (1, 1) (0, 0) None
          (Some \<lparr>base = 2, shape = [2, 3], transposed = False\<rparr>)) =
     Inr \<lparr>base = 6, shape = [3, 2], transposed = True\<rparr> \<and>
   fst (upConv [[1], [1], [0, 0, 0, 0, 0, 0]] \<lparr>base = 0, shape = [1, 1], transposed = False\<rparr>
          \<lparr>base = 1, shape = [1, 1], transposed = False\<rparr> ''zero'' (1, 1) (0, 0) None
          (Some \<lparr>base = 2, shape = [2, 3], transposed = False\<rparr>)) =
     Inr \<lparr>base = 6, shape = [2, 3], transposed = False\<rparr>"
  by (simp add: eval_defs)

text \<open>
  Claim C9. Whatever the arguments of \<open>corrDn\<close> and \<open>upConv\<close> are, the buffers of the
  image, of the filter and of a supplied result hold after the call what they held before,
  and the returned grid lives in a buffer that is none of theirs: both functions work on
  copies.
\<close>

theorem inputs_left_unmodified:
  assumes "base img < length st" "base filt < length st"
    and "\<forall>b. result = Some b \<longrightarrow> base b < length st"
  shows "\<forall>a \<in> {img, filt} \<union> set_option result.
           buffer (snd (corrDn st img filt edges step start stop result)) (base a) = buffer st (base a) \<and>
           (\<forall>r. fst (corrDn st img filt edges step start stop result) = Inr r \<longrightarrow> base r \<noteq> base a) \<and>
           buffer (snd (upConv st img filt edges step start stop result)) (base a) = buffer st (base a) \<and>
           (\<forall>r. fst (upConv st img filt edges step start stop result) = Inr r \<longrightarrow> base r \<noteq> base a)"
proof
  fix a assume "a \<in> {img, filt} \<union> set_option result"
  then have a: "base a < length st" using assms by auto
  have "buffer (snd (corrDn st img filt edges step start stop result)) (base a) = buffer st (base a)"
    using frame_buffer[OF corrDn_frame(1) a] .
  moreover have "buffer (snd (upConv st img filt edges step start stop result)) (base a) = buffer st (base a)"
    using frame_buffer[OF upConv_frame(1) a] .
  moreover have "\<forall>r. fst (corrDn st img filt edges step start stop result) = Inr r \<longrightarrow> base r \<noteq> base a"
    using corrDn_frame(2)[of st img filt edges step start stop result] a by fastforce
  moreover have "\<forall>r. fst (upConv st img filt edges step start stop result) = Inr r \<longrightarrow> base r \<noteq> base a"
    using upConv_frame(2)[of st img filt edges step start stop result] a by fastforce
  ultimately show "buffer (snd (corrDn st img filt edges step start stop result)) (base a) = buffer st (base a) \<and>
           (\<forall>r. fst (corrDn st img filt edges step start stop result) = Inr r \<longrightarrow> base r \<noteq> base a) \<and>
           buffer (snd (upConv st img filt edges step start stop result)) (base a) = buffer st (base a) \<and>
           (\<forall>r. fst (upConv st img filt edges step start stop result) = Inr r \<longrightarrow> base r \<noteq> base a)"
    by blast
qed

theorem inputs_left_unmodified_witness:
  "buffer (snd (upConv [[1], [1], [5]] \<lparr>base = 0, shape = [1, 1], transposed = False\<rparr>
                  \<lparr>base = 1, shape = [1, 1], transposed = False\<rparr> ''zero'' (1, 1) (0, 0) None
                  (Some \<lparr>base = 2, shape = [1, 1], transposed = False\<rparr>))) 2 = [5] \<and>
   buffer (snd (corrDn [[1], [1], [5]] \<lparr>base = 0, shape = [1, 1], transposed = False\<rparr>
                  \<lparr>base = 1, shape = [1, 1], transposed = False\<rparr> ''zero'' (1, 1) (0, 0) None
                  (Some \<lparr>base = 2, shape = [1, 1], transposed = False\<rparr>))) 2 = [5]"
proof -
  have b: "buffer [[1], [1], [5]] 2 = [5]"
    by (simp add: buffer_def)
  show ?thesis
    using b inputs_left_unmodified [where st = "[[1], [1], [5]]"
      and img = "\<lparr>base = 0, shape = [1, 1], transposed = False\<rparr>"
      and filt = "\<lparr>base = 1, shape = [1, 1], transposed = False\<rparr>"
      and result = "Some \<lparr>base = 2, shape = [1, 1], transposed = False\<rparr>"
      and edges = "''zero''" and step = "(1, 1)" and start = "(0, 0)" and stop = None]
    by simp
qed

section \<open>Checks that the module does not make\<close>

text \<open>
  Claim C5, as the code has it. \<open>corrDn\<close> compares no sizes, and the routine it calls
  cannot raise: for every two-dimensional image and every two-dimensional filter that is
  larger than the image along some axis, in every mode, the call with the default window
  returns a grid of the shape of the image.
\<close>

theorem corrDn_no_size_check:
  assumes "shape img = [h, w]" "shape filt = [fh, fw]" "h < fh \<or> w < fw"
  shows "fst (corrDn st img filt edges (1, 1) (0, 0) None None) =
           Inr \<lparr>base = length st + 2, shape = [h, w], transposed = False\<rparr>"
  using corrDn_default_ok [of img filt st edges] assms by simp

theorem corrDn_no_size_check_witness:
  "fst (corrDn [[1, 2], [1, 2, 3]] \<lparr>base = 0, shape = [1, 2], transposed = False\<rparr>
          \<lparr>base = 1, shape = [1, 3], transposed = False\<rparr> ''reflect1'' (1, 1) (0, 0) None None) =
     Inr \<lparr>base = 4, shape = [1, 2], transposed = False\<rparr>"
  using corrDn_no_size_check [where st = "[[1, 2], [1, 2, 3]]"
      and img = "\<lparr>base = 0, shape = [1, 2], transposed = False\<rparr>" and h = 1 and w = 2
      and filt = "\<lparr>base = 1, shape = [1, 3], transposed = False\<rparr>" and fh = 1 and fw = 3
      and edges = "''reflect1''"]
  by simp

theorem corrDn_large_filter_counterexample:
  "fst (corrDn [replicate 9 1, replicate 25 1] \<lparr>base = 0, shape = [3, 3], transposed = False\<rparr>
          \<lparr>base = 1, shape = [5, 5], transposed = False\<rparr> ''zero'' (1, 1) (0, 0) None None) =
     Inr \<lparr>base = 4, shape = [3, 3], transposed = False\<rparr> \<and>
   fst (corrDn [replicate 9 1, replicate 25 1] \<lparr>base = 0, shape = [3, 3], transposed = False\<rparr>
          \<lparr>base = 1, shape = [5, 5], transposed = False\<rparr> ''circular'' (1, 1) (0, 0) None None) =
     Inr \<lparr>base = 4, shape = [3, 3], transposed = False\<rparr>"
  using corrDn_default_ok [of "\<lparr>base = 0, shape = [3, 3], transposed = False\<rparr>"
      "\<lparr>base = 1, shape = [5, 5], transposed = False\<rparr>" "[replicate 9 1, replicate 25 1]"]
  by simp

text \<open>
  Claim C6, as the code has it. Neither function compares the orientation of image and
  filter: a row image with a column filter, or a column image with a row filter, is
  copied and handed to the routine, and the call with the default window returns a grid of
  the shape of the image.
\<close>

theorem mismatched_orientation_not_rejected:
  assumes "(shape img = [1, n] \<and> shape filt = [m, 1]) \<or> (shape img = [n, 1] \<and> shape filt = [1, m])"
  shows "fst (corrDn st img filt edges (1, 1) (0, 0) None None) =
           Inr \<lparr>base = length st + 2, shape = shape img, transposed = False\<rparr> \<and>
         (\<exists>r. fst (upConv st img filt edges (1, 1) (0, 0) None None) = Inr r \<and> shape r = shape img)"
proof
  show "fst (corrDn st img filt edges (1, 1) (0, 0) None None) =
           Inr \<lparr>base = length st + 2, shape = shape img, transposed = False\<rparr>"
    using corrDn_default_ok [of img filt st edges] assms by auto
  have "\<exists>f. fst (upConv_filter (snd (copy_inputs st img filt)) (snd (fst (copy_inputs st img filt))) edges) = Inr f"
    using assms by (intro upConv_filter_line_ok[of _ m]) (auto simp: copy_inputs_eq)
  then obtain f where "fst (upConv_filter (snd (copy_inputs st img filt)) (snd (fst (copy_inputs st img filt))) edges) = Inr f" ..
  from upConv_default_ok [OF this, of "(1, 1)" "(0, 0)"] assms
  show "\<exists>r. fst (upConv st img filt edges (1, 1) (0, 0) None None) = Inr r \<and> shape r = shape img"
    by auto
qed

theorem mismatched_orientation_not_rejected_witness:
  "fst (corrDn [[1, 2, 3, 4], [1, 2, 3]] \<lparr>base = 0, shape = [1, 4], transposed = False\<rparr>
          \<lparr>base = 1, shape = [3, 1], transposed = False\<rparr> ''zero'' (1, 1) (0, 0) None None) =
     Inr \<lparr>base = 4, shape = [1, 4], transposed = False\<rparr> \<and>
   (\<exists>r. fst (upConv [[1, 2, 3, 4], [1, 2, 3]] \<lparr>base = 0, shape = [1, 4], transposed = False\<rparr>
          \<lparr>base = 1, shape = [3, 1], transposed = False\<rparr> ''zero'' (1, 1) (0, 0) None None) = Inr r \<and>
        shape r = [1, 4])"
  using mismatched_orientation_not_rejected [where st = "[[1, 2, 3, 4], [1, 2, 3]]"
      and img = "\<lparr>base = 0, shape = [1, 4], transposed = False\<rparr>" and n = 4
      and filt = "\<lparr>base = 1, shape = [3, 1], transposed = False\<rparr>" and m = 3
      and edges = "''zero''"]
  by simp

theorem mismatched_orientation_counterexample:
  "fst (corrDn [[1, 2, 3, 4], [1, 2, 3]] \<lparr>base = 0, shape = [1, 4], transposed = False\<rparr>
          \<lparr>base = 1, shape = [3, 1], transposed = False\<rparr> ''reflect1'' (1, 1) (0, 0) None None) =
     Inr \<lparr>base = 4, shape = [1, 4], transposed = False\<rparr> \<and>
   fst (upConv [[1, 2, 3, 4], [1, 2, 3]] \<lparr>base = 0, shape = [1, 4], transposed = False\<rparr>
          \<lparr>base = 1, shape = [3, 1], transposed = False\<rparr> ''reflect1'' (1, 1) (0, 0) None None) =
     Inr \<lparr>base = 4, shape = [1, 4], transposed = False\<rparr>"
  by (simp add: eval_defs)

text \<open>
  Claim C7, as the code has it. \<open>pointOp\<close> looks neither at the number of samples nor at
  the increment: with a table of fewer than two samples, or with a zero increment, the
  call returns a grid of the shape of the image.
\<close>

theorem pointOp_no_table_check:
  assumes "length (shape img) = 2" "1 \<le> length (shape lut)"
    and "prod_list (shape lut) < 2 \<or> increment = 0"
  shows "fst (pointOp st img lut origin increment warnings) =
           Inr \<lparr>base = length st + 1, shape = shape img, transposed = False\<rparr>"
  using pointOp_ok [of img lut st] assms by simp

theorem pointOp_no_table_check_witness:
  "fst (pointOp [[1, 2], [7]] \<lparr>base = 0, shape = [1, 2], transposed = False\<rparr>
          \<lparr>base = 1, shape = [1], transposed = False\<rparr> 0 0 0) =
     Inr \<lparr>base = 3, shape = [1, 2], transposed = False\<rparr>"
  using pointOp_no_table_check [where st = "[[1, 2], [7]]"
      and img = "\<lparr>base = 0, shape = [1, 2], transposed = False\<rparr>"
      and lut = "\<lparr>base = 1, shape = [1], transposed = False\<rparr>" and increment = 0
      and origin = 0 and warnings = 0]
  by simp

theorem pointOp_bad_table_counterexample:
  "fst (pointOp [[1, 2], [7]] \<lparr>base = 0, shape = [1, 2], transposed = False\<rparr>
          \<lparr>base = 1, shape = [1], transposed = False\<rparr> 0 1 0) =
     Inr \<lparr>base = 3, shape = [1, 2], transposed = False\<rparr> \<and>
   fst (pointOp [[1, 2], [0, 1, 2]] \<lparr>base = 0, shape = [1, 2], transposed = False\<rparr>
          \<lparr>base = 1, shape = [3], transposed = False\<rparr> 0 0 0) =
     Inr \<lparr>base = 3, shape = [1, 2], transposed = False\<rparr>"
  using pointOp_ok [of "\<lparr>base = 0, shape = [1, 2], transposed = False\<rparr>"
      "\<lparr>base = 1, shape = [1], transposed = False\<rparr>" "[[1, 2], [7]]"]
    pointOp_ok [of "\<lparr>base = 0, shape = [1, 2], transposed = False\<rparr>"
      "\<lparr>base = 1, shape = [3], transposed = False\<rparr>" "[[1, 2], [0, 1, 2]]"]
  by simp

section \<open>The table of \<open>pointOp\<close>\<close>




section \<open>The adjoint law\<close>

text \<open>
  Claim C1, as the code has it. Let \<open>x\<close> and \<open>y\<close> be grids of the same shape
  \<open>h \<times> w\<close> (the shape \<open>corrDn\<close> returns for \<open>x\<close> with the default window), let the
  filter be one that \<open>upConv\<close> accepts (odd height and odd width, or a single row or
  column; a flat filter is a row), and let the mode be circular, reflect1, reflect2,
  repeat, zero or extend. Then both calls return a grid of shape \<open>h \<times> w\<close>, and the inner
  product of \<open>corrDn x\<close> with \<open>y\<close> equals the inner product of \<open>x\<close> with \<open>upConv y\<close>.
  The compiled routines are the ones modelled from the spec, and doubles are reals, so
  that the equality is exact. An even-sized two-dimensional filter is excluded: \<open>corrDn\<close>
  returns a grid for it and \<open>upConv\<close> raises.
\<close>

theorem adjoint_duality:
  assumes x: "shape x = [h, w]" and y: "shape y = [h, w]"
    and wx: "wf st x" and wy: "wf st y" and wfl: "wf st filt"
    and f: "shape filt = [fh, fw] \<or> (fh = 1 \<and> shape filt = [fw])"
    and sup: "(odd fh \<and> odd fw) \<or> fh = 1 \<or> fw = 1"
    and m: "adjoint_mode edges"
  shows "\<exists>r1 r2. fst (corrDn st x filt edges (1, 1) (0, 0) None None) = Inr r1 \<and>
           fst (upConv st y filt edges (1, 1) (0, 0) None None) = Inr r2 \<and>
           shape r1 = [h, w] \<and> shape r2 = [h, w] \<and>
           dot (c_order (snd (corrDn st x filt edges (1, 1) (0, 0) None None)) r1) (c_order st y) =
           dot (c_order st x) (c_order (snd (upConv st y filt edges (1, 1) (0, 0) None None)) r2)"
proof -
  let ?X = "c_order st x" and ?Y = "c_order st y" and ?F = "c_order st filt"
  let ?lay = "if edges = ''circular'' then (\<lambda>r c. c * h + r) else (\<lambda>r c. r * w + c)"
  let ?cd = "corrDn st x filt edges (1, 1) (0, 0) None None"
  let ?uc = "upConv st y filt edges (1, 1) (0, 0) None None"
  have X: "length ?X = h * w" using wf_length_c_order[OF wx] x by simp
  have Y: "length ?Y = h * w" using wf_length_c_order[OF wy] y by simp
  have F: "length ?F = fh * fw" using wf_length_c_order[OF wfl] f by auto
  have bf: "base filt < length st"
    using wfl by (simp add: wf_def)
  let ?r1 = "\<lparr>base = length st + 2, shape = [h, w], transposed = False\<rparr>"
  have r1: "fst ?cd = Inr ?r1"
    using corrDn_default_ok[of x filt st edges] x f by auto
  have "buffer (snd ?cd) (length st + 2) =
        reduce_with edges ?X w h ?F fw fh 0 1 (int w) 0 1 (int h) (replicate (h * w) 0)"
    using corrDn_default_buffer[OF x f bf, of edges] adjoint_mode_known[OF m]
    by (simp add: internal_wrap_reduce_def internal_reduce_def)
  then have c1: "c_order (snd ?cd) ?r1 =
        reduce_with edges ?X w h ?F fw fh 0 1 (int w) 0 1 (int h) (replicate (h * w) 0)"
    by (simp add: c_order_plain)
  let ?st2 = "st @ [?Y, ?F]"
  let ?f2 = "\<lparr>base = Suc (length st), shape = [fh, fw], transposed = False\<rparr>"
  have ci: "copy_inputs st y filt =
     ((\<lparr>base = length st, shape = [h, w], transposed = False\<rparr>, ?f2), ?st2)"
    using copied_filter_shape[OF f, of st y] y bf by (simp add: copy_inputs_eq)
  have b2: "buffer ?st2 (length st) = ?Y" "buffer ?st2 (Suc (length st)) = ?F"
    by (simp_all add: buffer_def nth_append)
  have up: "\<exists>r2 F' fh' fw'. fst ?uc = Inr r2 \<and> shape r2 = [h, w] \<and>
           dot ?X (c_order (snd ?uc) r2) =
           pairing ?lay ?X h w
             (expand_with edges ?lay ?Y F' fw' fh' 0 1 (int w) 0 1 (int h) (replicate (h * w) 0) w h) \<and>
           (\<forall>y x. weight ?X w F' (neighbourhood edges h w fh' fw' y x) =
                  weight ?X w ?F (neighbourhood edges h w fh fw y x))"
  proof -
    consider (odd) "odd fh" "odd fw" | (row) "fh = 1" "even fw" | (col) "fw = 1" "even fh"
      using sup by (cases "even fw"; cases "even fh"; force)
    then show ?thesis
    proof cases
      case odd
      have uf: "upConv_filter (snd (copy_inputs st y filt)) (snd (fst (copy_inputs st y filt))) edges =
                  (Inr ?f2, ?st2)"
        unfolding ci by (simp add: upConv_filter_odd[OF _ odd])
      from upConv_side[OF y m uf _ _ _ X, of fh fw] b2
      obtain r2 where "fst ?uc = Inr r2" "shape r2 = [h, w]"
        "dot ?X (c_order (snd ?uc) r2) =
           pairing ?lay ?X h w
             (expand_with edges ?lay ?Y ?F fw fh 0 1 (int w) 0 1 (int h) (replicate (h * w) 0) w h)"
        by auto
      then show ?thesis
        by (intro exI[of _ r2] exI[of _ ?F] exI[of _ fh] exI[of _ fw]) simp
    next
      case row
      let ?f3 = "\<lparr>base = length ?st2, shape = [1, fw + 1], transposed = False\<rparr>"
      have uf: "upConv_filter (snd (copy_inputs st y filt)) (snd (fst (copy_inputs st y filt))) edges =
                  (Inr ?f3, ?st2 @ [?F @ [0]])"
        unfolding ci using row F b2
        by (simp add: upConv_filter_row[where n = fw])
      have b3: "buffer (?st2 @ [?F @ [0]]) (length st) = ?Y"
        "buffer (?st2 @ [?F @ [0]]) (base ?f3) = ?F @ [0]"
        by (simp_all add: buffer_def nth_append)
      have "\<forall>y x. weight ?X w (?F @ [0]) (neighbourhood edges h w 1 (fw + 1) y x) =
                   weight ?X w ?F (neighbourhood edges h w fh fw y x)"
        using weight_padded_row[OF row(2), of ?F ?X w edges h] F row(1) by simp
      moreover from upConv_side[OF y m uf _ _ _ X, of 1 "fw + 1"] b3
      obtain r2 where "fst ?uc = Inr r2" "shape r2 = [h, w]"
        "dot ?X (c_order (snd ?uc) r2) =
           pairing ?lay ?X h w
             (expand_with edges ?lay ?Y (?F @ [0]) (fw + 1) 1 0 1 (int w) 0 1 (int h)
                (replicate (h * w) 0) w h)"
        by auto
      ultimately show ?thesis
        by (intro exI[of _ r2] exI[of _ "?F @ [0]"] exI[of _ 1] exI[of _ "fw + 1"]) simp
    next
      case col
      let ?f3 = "\<lparr>base = length ?st2, shape = [fh + 1, 1], transposed = False\<rparr>"
      have uf: "upConv_filter (snd (copy_inputs st y filt)) (snd (fst (copy_inputs st y filt))) edges =
                  (Inr ?f3, ?st2 @ [?F @ [0]])"
        unfolding ci using col F b2
        by (simp add: upConv_filter_col[where n = fh])
      have b3: "buffer (?st2 @ [?F @ [0]]) (length st) = ?Y"
        "buffer (?st2 @ [?F @ [0]]) (base ?f3) = ?F @ [0]"
        by (simp_all add: buffer_def nth_append)
      have "\<forall>y x. weight ?X w (?F @ [0]) (neighbourhood edges h w (fh + 1) 1 y x) =
                   weight ?X w ?F (neighbourhood edges h w fh fw y x)"
        using weight_padded_col[OF col(2), of ?F ?X w edges h] F col(1) by simp
      moreover from upConv_side[OF y m uf _ _ _ X, of "fh + 1" 1] b3
      obtain r2 where "fst ?uc = Inr r2" "shape r2 = [h, w]"
        "dot ?X (c_order (snd ?uc) r2) =
           pairing ?lay ?X h w
             (expand_with edges ?lay ?Y (?F @ [0]) 1 (fh + 1) 0 1 (int w) 0 1 (int h)
                (replicate (h * w) 0) w h)"
        by auto
      ultimately show ?thesis
        by (intro exI[of _ r2] exI[of _ "?F @ [0]"] exI[of _ "fh + 1"] exI[of _ 1]) simp
    qed
  qed
  then obtain r2 F' fh' fw' where r2: "fst ?uc = Inr r2" "shape r2 = [h, w]"
    and d2: "dot ?X (c_order (snd ?uc) r2) =
           pairing ?lay ?X h w
             (expand_with edges ?lay ?Y F' fw' fh' 0 1 (int w) 0 1 (int h) (replicate (h * w) 0) w h)"
    and wt: "\<And>y x. weight ?X w F' (neighbourhood edges h w fh' fw' y x) =
                  weight ?X w ?F (neighbourhood edges h w fh fw y x)"
    by blast
  have "dot (c_order (snd ?cd) ?r1) ?Y = dot ?X (c_order (snd ?uc) r2)"
    unfolding c1 d2 by (rule kernels_agree[OF m X Y wt])
  then show ?thesis using r1 r2 by auto
qed

theorem adjoint_duality_witness:
  "\<exists>r1 r2. fst (corrDn [[1, 2, 3, 4], [4, 3, 2, 1], [1, 2]]
                   \<lparr>base = 0, shape = [1, 4], transposed = False\<rparr>
                   \<lparr>base = 2, shape = [1, 2], transposed = False\<rparr> ''reflect1'' (1, 1) (0, 0)
                   None None) = Inr r1 \<and>
     fst (upConv [[1, 2, 3, 4], [4, 3, 2, 1], [1, 2]]
            \<lparr>base = 1, shape = [1, 4], transposed = False\<rparr>
            \<lparr>base = 2, shape = [1, 2], transposed = False\<rparr> ''reflect1'' (1, 1) (0, 0)
            None None) = Inr r2 \<and>
     shape r1 = [1, 4] \<and> shape r2 = [1, 4] \<and>
     dot (c_order (snd (corrDn [[1, 2, 3, 4], [4, 3, 2, 1], [1, 2]]
                          \<lparr>base = 0, shape = [1, 4], transposed = False\<rparr>
                          \<lparr>base = 2, shape = [1, 2], transposed = False\<rparr> ''reflect1'' (1, 1)
                          (0, 0) None None)) r1)
         (c_order [[1, 2, 3, 4], [4, 3, 2, 1], [1, 2]]
            \<lparr>base = 1, shape = [1, 4], transposed = False\<rparr>) =
     dot (c_order [[1, 2, 3, 4], [4, 3, 2, 1], [1, 2]]
            \<lparr>base = 0, shape = [1, 4], transposed = False\<rparr>)
         (c_order (snd (upConv [[1, 2, 3, 4], [4, 3, 2, 1], [1, 2]]
                          \<lparr>base = 1, shape = [1, 4], transposed = False\<rparr>
                          \<lparr>base = 2, shape = [1, 2], transposed = False\<rparr> ''reflect1'' (1, 1)
                          (0, 0) None None)) r2)"
  by (rule adjoint_duality [where fh = 1 and fw = 2]) (simp_all add: wf_def buffer_def adjoint_mode_def)

theorem adjoint_even_filter_counterexample:
  "fst (corrDn [[1, 2, 3, 4], [4, 3, 2, 1], [1, 0, 0, 1]]
          \<lparr>base = 0, shape = [2, 2], transposed = False\<rparr>
          \<lparr>base = 2, shape = [2, 2], transposed = False\<rparr> ''zero'' (1, 1) (0, 0) None None) =
     Inr \<lparr>base = 5, shape = [2, 2], transposed = False\<rparr> \<and>
   fst (upConv [[1, 2, 3, 4], [4, 3, 2, 1], [1, 0, 0, 1]]
          \<lparr>base = 1, shape = [2, 2], transposed = False\<rparr>
          \<lparr>base = 2, shape = [2, 2], transposed = False\<rparr> ''zero'' (1, 1) (0, 0) None None) =
     Inl UnsupportedFilter"
  by (simp add: eval_defs)

end
